theory Spec2Isabelle
  imports Main "HOL-Library.Word"
begin

unbundle bit_operations_syntax

section \<open>Python strings\<close>

text \<open>
  A Python \<open>str\<close> is modelled as a \<open>string\<close>, one \<open>char\<close> per code point, for
  text whose code points lie below 256. The character classes below are those of
  Python 3 on that range: \<open>str.strip()\<close> and the regular expression class
  \<open>\s\<close> share \<open>str.isspace\<close>, \<open>\d\<close> is the decimal digits, and
  \<open>str.lower()\<close> maps the upper-case letters (A to Z, and the accented capitals
  from 0xC0 to 0xDE without the multiplication sign 0xD7) to their lower-case partners.
\<close>

definition whitespace_chars :: "char list" where
  "whitespace_chars =
     [CHR 0x09, CHR 0x0A, CHR 0x0B, CHR 0x0C, CHR 0x0D, CHR 0x1C, CHR 0x1D, CHR 0x1E,
      CHR 0x1F, CHR 0x20, CHR 0x85, CHR 0xA0]"

definition is_space :: "char \<Rightarrow> bool" where
  "is_space c = (c \<in> set whitespace_chars)"

definition is_digit :: "char \<Rightarrow> bool" where
  "is_digit c = (c \<in> set ''0123456789'')"

definition upper_letters :: "char list" where
  "upper_letters =
     ''ABCDEFGHIJKLMNOPQRSTUVWXYZ'' @
     [CHR 0xC0, CHR 0xC1, CHR 0xC2, CHR 0xC3, CHR 0xC4, CHR 0xC5, CHR 0xC6, CHR 0xC7,
      CHR 0xC8, CHR 0xC9, CHR 0xCA, CHR 0xCB, CHR 0xCC, CHR 0xCD, CHR 0xCE, CHR 0xCF,
      CHR 0xD0, CHR 0xD1, CHR 0xD2, CHR 0xD3, CHR 0xD4, CHR 0xD5, CHR 0xD6, CHR 0xD8,
      CHR 0xD9, CHR 0xDA, CHR 0xDB, CHR 0xDC, CHR 0xDD, CHR 0xDE]"

definition lower_letters :: "char list" where
  "lower_letters =
     ''abcdefghijklmnopqrstuvwxyz'' @
     [CHR 0xE0, CHR 0xE1, CHR 0xE2, CHR 0xE3, CHR 0xE4, CHR 0xE5, CHR 0xE6, CHR 0xE7,
      CHR 0xE8, CHR 0xE9, CHR 0xEA, CHR 0xEB, CHR 0xEC, CHR 0xED, CHR 0xEE, CHR 0xEF,
      CHR 0xF0, CHR 0xF1, CHR 0xF2, CHR 0xF3, CHR 0xF4, CHR 0xF5, CHR 0xF6, CHR 0xF8,
      CHR 0xF9, CHR 0xFA, CHR 0xFB, CHR 0xFC, CHR 0xFD, CHR 0xFE]"

definition lower_char :: "char \<Rightarrow> char" where
  "lower_char c = (case map_of (zip upper_letters lower_letters) c of None \<Rightarrow> c | Some d \<Rightarrow> d)"

definition lower :: "string \<Rightarrow> string" where
  "lower s = map lower_char s"

definition strip :: "string \<Rightarrow> string" where
  "strip s = rev (dropWhile is_space (rev (dropWhile is_space s)))"

fun startswith :: "string \<Rightarrow> string \<Rightarrow> bool" where
  "startswith s [] = True"
| "startswith [] (p # ps) = False"
| "startswith (c # cs) (p # ps) = (c = p \<and> startswith cs ps)"

text \<open>\<open>contains s sub\<close> is Python's \<open>sub in s\<close>.\<close>

fun contains :: "string \<Rightarrow> string \<Rightarrow> bool" where
  "contains [] sub = (sub = [])"
| "contains (c # cs) sub = (startswith (c # cs) sub \<or> contains cs sub)"

text \<open>
  \<open>split_on sep s\<close> is \<open>s.split(sep)\<close> for a separator of one character: the
  pieces between the separators, empty pieces kept, never the empty list.
\<close>

primrec split_acc :: "char \<Rightarrow> string \<Rightarrow> string \<Rightarrow> string list" where
  "split_acc sep cur [] = [cur]"
| "split_acc sep cur (c # cs) =
     (if c = sep then cur # split_acc sep [] cs else split_acc sep (cur @ [c]) cs)"

definition split_on :: "char \<Rightarrow> string \<Rightarrow> string list" where
  "split_on sep s = split_acc sep [] s"

section \<open>Link extraction (download\_pdfs.py)\<close>

text \<open>
  Iterating over a text file yields its lines. \<open>file_lines\<close> cuts the text (as Python
  sees it, after newline translation) at every newline; the terminator is left off,
  which \<open>line.strip()\<close> removes in the source before anything reads the line.
\<close>

primrec lines_acc :: "string \<Rightarrow> string \<Rightarrow> string list" where
  "lines_acc cur [] = (if cur = [] then [] else [cur])"
| "lines_acc cur (c # cs) =
     (if c = CHR 0x0A then cur # lines_acc [] cs else lines_acc (cur @ [c]) cs)"

definition file_lines :: "string \<Rightarrow> string list" where
  "file_lines text = lines_acc [] text"

text \<open>
  \<open>re.match(r'^\d+\.\s+(.+)$', line)\<close> on a stripped line without newline: one or
  more digits, a dot, one or more whitespace characters, and the rest of the line as
  group 1. The result is group 1.
\<close>

definition title_match :: "string \<Rightarrow> string option" where
  "title_match line =
     (let ds = takeWhile is_digit line; r1 = dropWhile is_digit line in
      if ds = [] then None
      else (case r1 of
              [] \<Rightarrow> None
            | d # r2 \<Rightarrow>
                if d \<noteq> CHR ''.'' then None
                else (let ws = takeWhile is_space r2; g = dropWhile is_space r2 in
                      if ws = [] \<or> g = [] then None else Some g)))"

text \<open>
  The alternation \<open>(FULL CASE|PART \d+)\<close> at the start of a line, followed by a
  colon: the label and what follows the colon. This is
  \<open>re.match(r'(FULL CASE|PART \d+):', line)\<close>.
\<close>

definition label_prefix :: "string \<Rightarrow> (string \<times> string) option" where
  "label_prefix line =
     (if startswith line ''FULL CASE:'' then Some (''FULL CASE'', drop 10 line)
      else if startswith line ''PART '' then
        (let ds = takeWhile is_digit (drop 5 line); r = dropWhile is_digit (drop 5 line) in
         if ds \<noteq> [] \<and> startswith r '':'' then Some (''PART '' @ ds, drop 1 r) else None)
      else None)"

text \<open>
  \<open>re.match(r'(?:FULL CASE|PART \d+):\s+(.+)', line)\<close> on a stripped line: the
  label and colon, one or more whitespace characters, and the rest as group 1. The
  result is (label, group 1).
\<close>

definition url_match :: "string \<Rightarrow> (string \<times> string) option" where
  "url_match line =
     (case label_prefix line of
        None \<Rightarrow> None
      | Some (label, r) \<Rightarrow>
          (let ws = takeWhile is_space r; g = dropWhile is_space r in
           if ws = [] \<or> g = [] then None else Some (label, g)))"

definition is_header :: "string \<Rightarrow> bool" where
  "is_header line =
     (line = [] \<or> startswith line ''==='' \<or> startswith line ''PDF DOWNLOAD''
      \<or> startswith line ''SUMMARY'')"

definition is_pdf_url :: "string \<Rightarrow> bool" where
  "is_pdf_url line = (startswith line ''http'' \<and> contains (lower line) ''.pdf'')"

text \<open>
  The loop of \<open>extract_pdf_urls\<close>, with \<open>current_title\<close> as its state; the entries
  come out in the order \<open>urls.append\<close> adds them.
\<close>

fun extract_loop :: "string \<Rightarrow> string list \<Rightarrow> (string \<times> string) list" where
  "extract_loop current_title [] = []"
| "extract_loop current_title (raw # rest) =
     (let line = strip raw in
      if is_header line then extract_loop current_title rest
      else (case title_match line of
              Some t \<Rightarrow> extract_loop t rest
            | None \<Rightarrow>
                if is_pdf_url line then
                  (case url_match line of
                     Some (part_label, url) \<Rightarrow>
                       (current_title @ '' - '' @ part_label, url)
                         # extract_loop current_title rest
                   | None \<Rightarrow> (current_title, line) # extract_loop current_title rest)
                else extract_loop current_title rest))"

definition extract_pdf_urls :: "string \<Rightarrow> (string \<times> string) list" where
  "extract_pdf_urls text = extract_loop [] (file_lines text)"

text \<open>The input of the specification's link-extraction example.\<close>

definition example_links :: "string" where
  "example_links =
     ''1. Case Alpha'' @ [CHR 0x0A] @
     ''FULL CASE: http://example.com/a.pdf'' @ [CHR 0x0A] @
     ''2. Case Beta'' @ [CHR 0x0A] @
     ''PART 1: http://example.com/b1.pdf'' @ [CHR 0x0A] @
     ''PART 2: http://example.com/b2.pdf'' @ [CHR 0x0A]"

section \<open>File names (download\_pdfs.py)\<close>

text \<open>The characters of the class \<open>[<>:"/\\|?*]\<close>.\<close>

definition unsafe_chars :: "char list" where
  "unsafe_chars =
     [CHR ''<'', CHR ''>'', CHR '':'', CHR 0x22, CHR ''/'', CHR 0x5C, CHR ''|'', CHR ''?'',
      CHR ''*'']"

definition remove_unsafe :: "string \<Rightarrow> string" where
  "remove_unsafe s = filter (\<lambda>c. c \<notin> set unsafe_chars) s"

text \<open>
  \<open>re.sub(r'\s+', '_', s)\<close>: every maximal run of whitespace becomes one
  underscore. The flag says that the previous character was whitespace, so that the run
  has its underscore already.
\<close>

primrec sub_ws :: "bool \<Rightarrow> string \<Rightarrow> string" where
  "sub_ws in_run [] = []"
| "sub_ws in_run (c # cs) =
     (if is_space c then (if in_run then sub_ws True cs else CHR ''_'' # sub_ws True cs)
      else c # sub_ws False cs)"

definition collapse_ws :: "string \<Rightarrow> string" where
  "collapse_ws s = sub_ws False s"

definition sanitize_filename :: "string \<Rightarrow> string" where
  "sanitize_filename title =
     (let safe_title = collapse_ws (remove_unsafe title);
          safe_title = (if length safe_title > 200 then take 200 safe_title else safe_title)
      in safe_title @ ''.pdf'')"

section \<open>The ledger key: SHA-256 (hashlib) of the encoded URL\<close>

text \<open>
  \<open>get_url_hash\<close> is \<open>hashlib.sha256(url.encode()).hexdigest()[:16]\<close>. The hash
  of the library is SHA-256 as FIPS 180-4 defines it, written out here on 32-bit words:
  the round constants, the initial hash value, the padding, the message schedule, the
  sixty-four rounds of the compression function, and the digest in lower-case
  hexadecimal digits.
\<close>

type_synonym u32 = "32 word"

definition sha_k :: "u32 list" where
  "sha_k =
     [0x428A2F98, 0x71374491, 0xB5C0FBCF, 0xE9B5DBA5, 0x3956C25B, 0x59F111F1, 0x923F82A4,
      0xAB1C5ED5, 0xD807AA98, 0x12835B01, 0x243185BE, 0x550C7DC3, 0x72BE5D74, 0x80DEB1FE,
      0x9BDC06A7, 0xC19BF174, 0xE49B69C1, 0xEFBE4786, 0x0FC19DC6, 0x240CA1CC, 0x2DE92C6F,
      0x4A7484AA, 0x5CB0A9DC, 0x76F988DA, 0x983E5152, 0xA831C66D, 0xB00327C8, 0xBF597FC7,
      0xC6E00BF3, 0xD5A79147, 0x06CA6351, 0x14292967, 0x27B70A85, 0x2E1B2138, 0x4D2C6DFC,
      0x53380D13, 0x650A7354, 0x766A0ABB, 0x81C2C92E, 0x92722C85, 0xA2BFE8A1, 0xA81A664B,
      0xC24B8B70, 0xC76C51A3, 0xD192E819, 0xD6990624, 0xF40E3585, 0x106AA070, 0x19A4C116,
      0x1E376C08, 0x2748774C, 0x34B0BCB5, 0x391C0CB3, 0x4ED8AA4A, 0x5B9CCA4F, 0x682E6FF3,
      0x748F82EE, 0x78A5636F, 0x84C87814, 0x8CC70208, 0x90BEFFFA, 0xA4506CEB, 0xBEF9A3F7,
      0xC67178F2]"

definition sha_h0 :: "u32 list" where
  "sha_h0 =
     [0x6A09E667, 0xBB67AE85, 0x3C6EF372, 0xA54FF53A, 0x510E527F, 0x9B05688C, 0x1F83D9AB,
      0x5BE0CD19]"

text \<open>\<open>str.encode()\<close>: UTF-8, of code points below 256.\<close>

type_synonym byte = "8 word"

definition utf8_char :: "char \<Rightarrow> byte list" where
  "utf8_char c =
     (let n = (of_char c :: nat) in
      if n < 128 then [of_nat n] else [of_nat (192 + n div 64), of_nat (128 + n mod 64)])"

definition encode :: "string \<Rightarrow> byte list" where
  "encode s = concat (map utf8_char s)"

text \<open>The length of the message in bits, as eight bytes, most significant first.\<close>

definition length_bytes :: "nat \<Rightarrow> byte list" where
  "length_bytes n =
     map (\<lambda>i. ucast (drop_bit (8 * (7 - i)) (of_nat (8 * n) :: 64 word))) [0..<8]"

definition sha_pad :: "byte list \<Rightarrow> byte list" where
  "sha_pad m =
     m @ [0x80] @ replicate ((119 - length m mod 64) mod 64) 0 @ length_bytes (length m)"

primrec chunks_of :: "nat \<Rightarrow> nat \<Rightarrow> 'a list \<Rightarrow> 'a list list" where
  "chunks_of 0 k xs = []"
| "chunks_of (Suc n) k xs = take k xs # chunks_of n k (drop k xs)"

definition be_word :: "byte list \<Rightarrow> u32" where
  "be_word bs = foldl (\<lambda>a b. push_bit 8 a OR ucast b) 0 bs"

definition block_words :: "byte list \<Rightarrow> u32 list" where
  "block_words block = map be_word (chunks_of 16 4 block)"

definition ssig0 :: "u32 \<Rightarrow> u32" where
  "ssig0 x = word_rotr 7 x XOR word_rotr 18 x XOR drop_bit 3 x"

definition ssig1 :: "u32 \<Rightarrow> u32" where
  "ssig1 x = word_rotr 17 x XOR word_rotr 19 x XOR drop_bit 10 x"

definition bsig0 :: "u32 \<Rightarrow> u32" where
  "bsig0 x = word_rotr 2 x XOR word_rotr 13 x XOR word_rotr 22 x"

definition bsig1 :: "u32 \<Rightarrow> u32" where
  "bsig1 x = word_rotr 6 x XOR word_rotr 11 x XOR word_rotr 25 x"

definition ch :: "u32 \<Rightarrow> u32 \<Rightarrow> u32 \<Rightarrow> u32" where
  "ch x y z = (x AND y) XOR (NOT x AND z)"

definition maj :: "u32 \<Rightarrow> u32 \<Rightarrow> u32 \<Rightarrow> u32" where
  "maj x y z = (x AND y) XOR (x AND z) XOR (y AND z)"

text \<open>
  The message schedule: the sixteen words of the block, extended to sixty-four, one word
  for each \<open>t\<close> from 16 to 63.
\<close>

definition schedule_step :: "u32 list \<Rightarrow> nat \<Rightarrow> u32 list" where
  "schedule_step w t =
     w @ [ssig1 (w ! (t - 2)) + w ! (t - 7) + ssig0 (w ! (t - 15)) + w ! (t - 16)]"

definition schedule :: "u32 list \<Rightarrow> u32 list" where
  "schedule w16 = foldl schedule_step w16 [16..<64]"

record sha_regs =
  ra :: u32
  rb :: u32
  rc :: u32
  rd :: u32
  re :: u32
  rf :: u32
  rg :: u32
  rh :: u32

definition sha_round :: "sha_regs \<Rightarrow> u32 \<times> u32 \<Rightarrow> sha_regs" where
  "sha_round r kw =
     (let t1 = rh r + bsig1 (re r) + ch (re r) (rf r) (rg r) + fst kw + snd kw;
          t2 = bsig0 (ra r) + maj (ra r) (rb r) (rc r)
      in \<lparr>ra = t1 + t2, rb = ra r, rc = rb r, rd = rc r, re = rd r + t1, rf = re r,
          rg = rf r, rh = rg r\<rparr>)"

definition regs_of :: "u32 list \<Rightarrow> sha_regs" where
  "regs_of h =
     \<lparr>ra = h ! 0, rb = h ! 1, rc = h ! 2, rd = h ! 3, re = h ! 4, rf = h ! 5, rg = h ! 6,
      rh = h ! 7\<rparr>"

definition regs_list :: "sha_regs \<Rightarrow> u32 list" where
  "regs_list r = [ra r, rb r, rc r, rd r, re r, rf r, rg r, rh r]"

definition compress :: "u32 list \<Rightarrow> byte list \<Rightarrow> u32 list" where
  "compress h block =
     map2 (+) h
       (regs_list (foldl sha_round (regs_of h) (zip sha_k (schedule (block_words block)))))"

definition sha256 :: "byte list \<Rightarrow> u32 list" where
  "sha256 m =
     (let p = sha_pad m in foldl compress sha_h0 (chunks_of (length p div 64) 64 p))"

definition hex_chars :: string where
  "hex_chars = ''0123456789abcdef''"

definition hex_digit :: "u32 \<Rightarrow> char" where
  "hex_digit n = hex_chars ! unat (n AND 15)"

definition hex_word :: "u32 \<Rightarrow> string" where
  "hex_word w = map (\<lambda>i. hex_digit (drop_bit (4 * (7 - i)) w)) [0..<8]"

definition hexdigest :: "u32 list \<Rightarrow> string" where
  "hexdigest h = concat (map hex_word h)"

definition get_url_hash :: "string \<Rightarrow> string" where
  "get_url_hash url = take 16 (hexdigest (sha256 (encode url)))"

section \<open>The ledger (download\_pdfs.py, DownloadTracker)\<close>

text \<open>
  \<open>data["downloads"]\<close> is a dictionary from the key of a URL to the record of its
  download. The tracking file holds the JSON text of \<open>data\<close>; \<open>json.dump\<close>
  followed by \<open>json.load\<close> gives back a dictionary of strings as it was, so the
  file is modelled by the dictionary it stores. A file that is JSON of another shape
  is outside the model.
\<close>

record ledger_entry =
  entry_url :: string
  entry_filename :: string
  entry_title :: string
  entry_downloaded_at :: string

type_synonym ledger = "string \<rightharpoonup> ledger_entry"

datatype tracking_file = NoFile | Unparsable | Stored ledger

text \<open>
  The world the downloader acts on: the files of the download directory by path, the
  tracking file, and the trace of what the process did, in order.
\<close>

datatype event =
    Exists string
  | Get string
  | Write string
  | Remove string
  | SaveTracking
  | RetrySleep
  | PoliteSleep

record world =
  files :: "string \<rightharpoonup> string"
  tracking :: tracking_file
  trace :: "event list"

text \<open>
  What \<open>requests.get(url, timeout=TIMEOUT, stream=True)\<close>, \<open>raise_for_status\<close>
  and \<open>iter_content\<close> do for one attempt: a \<open>RequestException\<close> before any byte
  arrives (no connection, a timeout, a status that is not a success), the whole body in
  chunks, or some chunks and then a \<open>RequestException\<close>. Opening and writing the
  destination file are taken to succeed: an \<open>OSError\<close> is not caught by the source
  and is outside the model.
\<close>

datatype response = Failure | Complete "string list" | Interrupted "string list"

text \<open>
  The environment: the answer of the remote side to the n-th request of the process
  (counted over all URLs), and the clock read by \<open>time.strftime\<close>.
\<close>

record env =
  respond :: "string \<Rightarrow> nat \<Rightarrow> response"
  strftime :: "nat \<Rightarrow> string"

definition MAX_RETRIES :: nat where
  "MAX_RETRIES = 3"

definition DOWNLOAD_DIR :: string where
  "DOWNLOAD_DIR = ''downloaded_pdfs''"

definition is_get :: "event \<Rightarrow> bool" where
  "is_get e = (case e of Get u \<Rightarrow> True | _ \<Rightarrow> False)"

definition request_count :: "world \<Rightarrow> nat" where
  "request_count w = length (filter is_get (trace w))"

definition log_event :: "event \<Rightarrow> world \<Rightarrow> world" where
  "log_event e w = w\<lparr>trace := trace w @ [e]\<rparr>"

record tracker =
  data :: ledger

definition load_tracking_data :: "world \<Rightarrow> ledger" where
  "load_tracking_data w =
     (case tracking w of NoFile \<Rightarrow> Map.empty | Unparsable \<Rightarrow> Map.empty | Stored d \<Rightarrow> d)"

definition DownloadTracker :: "world \<Rightarrow> tracker" where
  "DownloadTracker w = \<lparr>data = load_tracking_data w\<rparr>"

definition save_tracking_data :: "tracker \<Rightarrow> world \<Rightarrow> world" where
  "save_tracking_data t w = log_event SaveTracking (w\<lparr>tracking := Stored (data t)\<rparr>)"

definition is_downloaded :: "tracker \<Rightarrow> string \<Rightarrow> bool" where
  "is_downloaded t url = (get_url_hash url \<in> dom (data t))"

definition mark_downloaded ::
  "env \<Rightarrow> string \<Rightarrow> string \<Rightarrow> string \<Rightarrow> tracker \<times> world \<Rightarrow> tracker \<times> world" where
  "mark_downloaded E url filename title tw =
     (let t = fst tw; w = snd tw;
          t' = t\<lparr>data := (data t)(get_url_hash url \<mapsto>
                 \<lparr>entry_url = url, entry_filename = filename, entry_title = title,
                  entry_downloaded_at = strftime E (length (trace w))\<rparr>)\<rparr>
      in (t', save_tracking_data t' w))"

section \<open>The downloader (download\_pdfs.py)\<close>

text \<open>
  \<open>download_file\<close>: the loop \<open>for attempt in range(retries)\<close>, by the number of
  attempts still to make. \<open>attempt < retries - 1\<close> holds exactly when an attempt is
  left after this one. With no attempt to make the loop body never runs and the final
  \<open>return False\<close> is reached.
\<close>

definition on_request_exception :: "string \<Rightarrow> nat \<Rightarrow> world \<Rightarrow> bool option \<times> world" where
  "on_request_exception output_path left w =
     (if 0 < left then (None, log_event RetrySleep w)
      else (let w1 = log_event (Exists output_path) w in
            if output_path \<in> dom (files w1)
            then (Some False,
                  log_event (Remove output_path) (w1\<lparr>files := (files w1)(output_path := None)\<rparr>))
            else (Some False, w1)))"

definition write_chunks :: "string \<Rightarrow> string list \<Rightarrow> world \<Rightarrow> world" where
  "write_chunks output_path chunks w =
     log_event (Write output_path)
       (w\<lparr>files := (files w)(output_path \<mapsto> concat (filter (\<lambda>c. c \<noteq> []) chunks))\<rparr>)"

text \<open>One pass through the loop body: \<open>Some b\<close> when it returns \<open>b\<close>.\<close>

definition attempt_download ::
  "env \<Rightarrow> string \<Rightarrow> string \<Rightarrow> nat \<Rightarrow> world \<Rightarrow> bool option \<times> world" where
  "attempt_download E url output_path left w =
     (let w1 = log_event (Get url) w in
      case respond E url (request_count w) of
        Failure \<Rightarrow> on_request_exception output_path left w1
      | Complete chunks \<Rightarrow> (Some True, write_chunks output_path chunks w1)
      | Interrupted chunks \<Rightarrow>
          on_request_exception output_path left (write_chunks output_path chunks w1))"

fun download_loop :: "env \<Rightarrow> string \<Rightarrow> string \<Rightarrow> nat \<Rightarrow> world \<Rightarrow> bool \<times> world" where
  "download_loop E url output_path 0 w = (False, w)"
| "download_loop E url output_path (Suc left) w =
     (case attempt_download E url output_path left w of
        (Some b, w') \<Rightarrow> (b, w')
      | (None, w') \<Rightarrow> download_loop E url output_path left w')"

definition download_file :: "env \<Rightarrow> string \<Rightarrow> string \<Rightarrow> nat \<Rightarrow> world \<Rightarrow> bool \<times> world" where
  "download_file E url output_path retries w = download_loop E url output_path retries w"

text \<open>
  \<open>os.path.join(DOWNLOAD_DIR, filename)\<close> on a POSIX system: a file name that starts
  with a slash would replace the directory.
\<close>

definition path_join :: "string \<Rightarrow> string \<Rightarrow> string" where
  "path_join dir name = (if startswith name ''/'' then name else dir @ ''/'' @ name)"

record counts =
  downloaded :: nat
  skipped :: nat
  failed :: nat

type_synonym batch_state = "tracker \<times> counts \<times> world"

text \<open>
  The body of the loop of \<open>main\<close> for the entry number \<open>idx\<close> of \<open>len\<close>. Both
  skips leave through \<open>continue\<close>, before the delay at the end of the body.
\<close>

definition process_entry ::
  "env \<Rightarrow> nat \<Rightarrow> nat \<Rightarrow> string \<times> string \<Rightarrow> batch_state \<Rightarrow> batch_state" where
  "process_entry E len idx entry s =
     (let title = fst entry; url = snd entry;
          t = fst s; c = fst (snd s); w = snd (snd s) in
      if is_downloaded t url then (t, c\<lparr>skipped := skipped c + 1\<rparr>, w)
      else
        (let filename = sanitize_filename title;
             output_path = path_join DOWNLOAD_DIR filename;
             w1 = log_event (Exists output_path) w in
         if output_path \<in> dom (files w1) then
           (let tw = mark_downloaded E url filename title (t, w1)
            in (fst tw, c\<lparr>skipped := skipped c + 1\<rparr>, snd tw))
         else
           (let r = download_file E url output_path MAX_RETRIES w1;
                s' = (if fst r
                      then (let tw = mark_downloaded E url filename title (t, snd r)
                            in (fst tw, c\<lparr>downloaded := downloaded c + 1\<rparr>, snd tw))
                      else (t, c\<lparr>failed := failed c + 1\<rparr>, snd r))
            in if idx < len
               then (fst s', fst (snd s'), log_event PoliteSleep (snd (snd s')))
               else s')))"

fun main_loop ::
  "env \<Rightarrow> nat \<Rightarrow> nat \<Rightarrow> (string \<times> string) list \<Rightarrow> batch_state \<Rightarrow> batch_state" where
  "main_loop E len idx [] s = s"
| "main_loop E len idx (entry # rest) s =
     main_loop E len (idx + 1) rest (process_entry E len idx entry s)"

text \<open>
  One run of the batch: a fresh tracker read from the tracking file, the counters at
  zero, and the loop over the entries, numbered from 1.
\<close>

definition run_batch :: "env \<Rightarrow> (string \<times> string) list \<Rightarrow> world \<Rightarrow> counts \<times> world" where
  "run_batch E pdf_urls w =
     (let s = main_loop E (length pdf_urls) 1 pdf_urls
                (DownloadTracker w, \<lparr>downloaded = 0, skipped = 0, failed = 0\<rparr>, w)
      in (fst (snd s), snd (snd s)))"

text \<open>
  \<open>main\<close>: without the links file the process exits with status 1 before any work;
  otherwise the status is 1 exactly when an entry failed. The first component of the
  result is the exit status. Printing and \<open>os.makedirs\<close> are left out.
\<close>

definition main :: "env \<Rightarrow> string option \<Rightarrow> world \<Rightarrow> nat \<times> counts option \<times> world" where
  "main E links_file w =
     (case links_file of
        None \<Rightarrow> (1, None, w)
      | Some text \<Rightarrow>
          (let r = run_batch E (extract_pdf_urls text) w
           in (if 0 < failed (fst r) then 1 else 0, Some (fst r), snd r)))"

section \<open>Catalog records (fetch\_all\_cases.py)\<close>

text \<open>
  What the source reads of an \<open><a>\<close> element through BeautifulSoup: its
  \<open>href\<close> attribute, the stripped text of its first \<open>h3\<close> descendant, the
  stripped texts of its \<open>p\<close> descendants in document order, and the stripped text
  of its first \<open>div\<close> descendant. \<open>None\<close> stands for an absent attribute or
  descendant.
\<close>

record element =
  href :: "string option"
  h3_text :: "string option"
  p_texts :: "string list"
  div_text :: "string option"

text \<open>
  The dictionary \<open>case_data\<close>. The keys \<open>title\<close> and \<open>categories\<close> are set only
  when the element has an \<open>h3\<close> and a \<open>div\<close>.
\<close>

record case_data =
  url :: string
  title :: "string option"
  authors :: "string list"
  description :: string
  date :: string
  categories :: "string option"

definition months :: "string list" where
  "months =
     [''January'', ''February'', ''March'', ''April'', ''May'', ''June'', ''July'',
      ''August'', ''September'', ''October'', ''November'', ''December'']"

text \<open>
  The body of \<open>for p in p_tags\<close>, on the state (authors, description, date) and the
  stripped text of the paragraph.
\<close>

definition p_step ::
  "string list \<times> string \<times> string \<Rightarrow> string \<Rightarrow> string list \<times> string \<times> string" where
  "p_step st text =
     (let authors = fst st; description = fst (snd st); date = snd (snd st) in
      if startswith text ''By '' then
        (map strip (split_on CHR '','' (drop 3 text)), description, date)
      else if contains text '','' \<and> list_ex (\<lambda>month. contains text month) months then
        (authors, description, text)
      else if length text > length description then (authors, text, date)
      else (authors, description, date))"

definition parse_case_element :: "element \<Rightarrow> case_data" where
  "parse_case_element case_element =
     (let url0 = (case href case_element of None \<Rightarrow> [] | Some h \<Rightarrow> h);
          url1 = (if url0 \<noteq> [] \<and> \<not> startswith url0 ''http''
                  then ''https://mitsloan.mit.edu'' @ url0 else url0);
          st = foldl p_step ([], [], []) (p_texts case_element)
      in \<lparr>url = url1, title = h3_text case_element, authors = fst st,
          description = fst (snd st), date = snd (snd st),
          categories = div_text case_element\<rparr>)"

text \<open>
  The reading of the specification: the authors come from the first paragraph that
  starts with \<open>By\<close> and a space.
\<close>

definition spec_authors_first_match :: "element \<Rightarrow> string list" where
  "spec_authors_first_match case_element =
     (case filter (\<lambda>text. startswith text ''By '') (p_texts case_element) of
        [] \<Rightarrow> []
      | text # _ \<Rightarrow> map strip (split_on CHR '','' (drop 3 text)))"

section \<open>Catalog discovery (fetch\_all\_cases.py)\<close>

text \<open>
  The libraries the function calls are parameters: \<open>requests.get\<close> with
  \<open>raise_for_status\<close> for the listing page and for the n-th call of the pagination
  API with its three parameters; BeautifulSoup's parse of a text, read as all \<open><a>\<close>
  elements in document order and the first \<open><a>\<close> whose string is \<open>Load More\<close>;
  \<open>parse_qs(urlparse(url).query).get(key)\<close>; and \<open>int\<close> of a string.
\<close>

datatype http_result = RequestException | Response string

record document =
  anchors :: "element list"
  load_more :: "element option"

record web =
  get_page :: "string \<Rightarrow> http_result"
  get_api :: "nat \<Rightarrow> string \<Rightarrow> string \<Rightarrow> int \<Rightarrow> http_result"
  soup :: "string \<Rightarrow> document"
  query :: "string \<Rightarrow> string \<Rightarrow> string list option"
  int_of_str :: "string \<Rightarrow> int option"

datatype fetch_error = RequestFailed | ValueError | TypeError | IndexError

definition library_prefix :: string where
  "library_prefix = ''/teaching-resources-library/''"

definition listing_path :: string where
  "listing_path = ''/teaching-resources-library/mit-sloan-case-studies-0''"

text \<open>The two \<open>href\<close> filters of \<open>find_all\<close>: of the listing page, and of a fragment.\<close>

definition initial_href_ok :: "element \<Rightarrow> bool" where
  "initial_href_ok a =
     (case href a of
        None \<Rightarrow> False
      | Some h \<Rightarrow> h \<noteq> [] \<and> startswith h library_prefix \<and> h \<noteq> listing_path)"

definition fragment_href_ok :: "element \<Rightarrow> bool" where
  "fragment_href_ok a =
     (case href a of None \<Rightarrow> False | Some h \<Rightarrow> h \<noteq> [] \<and> startswith h library_prefix)"

text \<open>\<open>case_data.get('title')\<close> is true: the key is set and the title is not empty.\<close>

definition has_title :: "case_data \<Rightarrow> bool" where
  "has_title c = (case title c of None \<Rightarrow> False | Some t \<Rightarrow> t \<noteq> [])"

definition titled_records :: "element list \<Rightarrow> case_data list" where
  "titled_records case_elements = filter has_title (map parse_case_element case_elements)"

definition initial_case_elements :: "document \<Rightarrow> element list" where
  "initial_case_elements doc =
     filter (\<lambda>link. h3_text link \<noteq> None) (filter initial_href_ok (anchors doc))"

definition fragment_case_elements :: "document \<Rightarrow> element list" where
  "fragment_case_elements doc = filter fragment_href_ok (anchors doc)"

text \<open>
  The loop \<open>while True\<close>. The state is the number of API calls made, the offset, the
  records collected and the offsets requested so far. The loop has no bound of its own:
  \<open>None\<close> is the run that never leaves it.
\<close>

partial_function (option) api_loop ::
  "web \<Rightarrow> string \<Rightarrow> string \<Rightarrow> nat \<Rightarrow> int \<Rightarrow> case_data list \<Rightarrow> int list
   \<Rightarrow> (case_data list \<times> int list) option" where
  "api_loop W pid base_nid n offset all_cases requested =
     (case get_api W n pid base_nid offset of
        RequestException \<Rightarrow> Some (all_cases, requested @ [offset])
      | Response text \<Rightarrow>
          if text = [] \<or> strip text = [] then Some (all_cases, requested @ [offset])
          else if fragment_case_elements (soup W text) = []
          then Some (all_cases, requested @ [offset])
          else api_loop W pid base_nid (n + 1) (offset + 10)
                 (all_cases @ titled_records (fragment_case_elements (soup W text)))
                 (requested @ [offset]))"

text \<open>\<open>params.get(key, [default])[0]\<close>.\<close>

definition first_param ::
  "(string \<Rightarrow> string list option) \<Rightarrow> string \<Rightarrow> string option \<Rightarrow> fetch_error + string option" where
  "first_param params key dflt =
     (case params key of
        None \<Rightarrow> Inr dflt
      | Some [] \<Rightarrow> Inl IndexError
      | Some (v # _) \<Rightarrow> Inr (Some v))"

text \<open>\<open>int(x)\<close>.\<close>

definition py_int :: "web \<Rightarrow> string option \<Rightarrow> fetch_error + int" where
  "py_int W x =
     (case x of
        None \<Rightarrow> Inl TypeError
      | Some s \<Rightarrow> (case int_of_str W s of None \<Rightarrow> Inl ValueError | Some i \<Rightarrow> Inr i))"

text \<open>
  \<open>fetch_all_cases\<close>: an error is an exception that leaves the function; the result is
  the list returned, with the offsets requested from the API.
\<close>

definition fetch_all_cases ::
  "web \<Rightarrow> string \<Rightarrow> (fetch_error + case_data list \<times> int list) option" where
  "fetch_all_cases W page_url =
     (case get_page W page_url of
        RequestException \<Rightarrow> Some (Inl RequestFailed)
      | Response text \<Rightarrow>
          (let doc = soup W text;
               all_cases = titled_records (initial_case_elements doc) in
           case load_more doc of
             None \<Rightarrow> Some (Inr (all_cases, []))
           | Some button \<Rightarrow>
               (case href button of
                  None \<Rightarrow> Some (Inr (all_cases, []))
                | Some load_more_url \<Rightarrow>
                    if load_more_url = [] then Some (Inr (all_cases, []))
                    else
                      (case first_param (query W load_more_url) ''pid'' None of
                         Inl e \<Rightarrow> Some (Inl e)
                       | Inr pid \<Rightarrow>
                       (case first_param (query W load_more_url) ''base_nid'' None of
                          Inl e \<Rightarrow> Some (Inl e)
                        | Inr base_nid \<Rightarrow>
                        (case first_param (query W load_more_url) ''offset'' (Some ''10'') of
                           Inl e \<Rightarrow> Some (Inl e)
                         | Inr offset_text \<Rightarrow>
                         (case py_int W offset_text of
                            Inl e \<Rightarrow> Some (Inl e)
                          | Inr initial_offset \<Rightarrow>
                              (case (pid, base_nid) of
                                 (Some p, Some b) \<Rightarrow>
                                   if p = [] \<or> b = [] then Some (Inr (all_cases, []))
                                   else map_option Inr
                                          (api_loop W p b 0 initial_offset all_cases [])
                               | _ \<Rightarrow> Some (Inr (all_cases, []))))))))))"

section \<open>Subgroup links (mit/scrape\_case\_studies.py)\<close>

text \<open>
  An \<open><a>\<close> element with an \<open>href\<close>, as \<open>find_all('a', href=True)\<close> yields it:
  the attribute and \<open>get_text(strip=True)\<close>. The page request, the parser and
  \<open>urljoin\<close> are parameters.
\<close>

record link =
  link_href :: string
  link_text :: string

record subgroup =
  sg_title :: string
  sg_url :: string

record scraper =
  fetch :: "string \<Rightarrow> http_result"
  find_links :: "string \<Rightarrow> link list"
  urljoin :: "string \<Rightarrow> string \<Rightarrow> string"

definition link_step :: "scraper \<Rightarrow> string \<Rightarrow> subgroup list \<Rightarrow> link \<Rightarrow> subgroup list" where
  "link_step S base_url case_study_links l =
     (let h = link_href l in
      if contains h ''teaching-resources-library'' \<and> contains (lower h) ''case'' then
        (let full_url = urljoin S base_url h in
         if full_url \<noteq> base_url \<and> full_url \<notin> set (map sg_url case_study_links) then
           (let t = link_text l in
            if t \<noteq> [] then case_study_links @ [\<lparr>sg_title = t, sg_url = full_url\<rparr>]
            else case_study_links)
         else case_study_links)
      else case_study_links)"

definition get_case_study_links :: "scraper \<Rightarrow> string \<Rightarrow> subgroup list" where
  "get_case_study_links S base_url =
     (case fetch S base_url of
        RequestException \<Rightarrow> []
      | Response content \<Rightarrow> foldl (link_step S base_url) [] (find_links S content))"

section \<open>Notions of the properties\<close>

text \<open>The paragraphs whose text starts with \<open>By\<close> and a space.\<close>

definition bylines :: "string list \<Rightarrow> string list" where
  "bylines ps = filter (\<lambda>text. startswith text ''By '') ps"

text \<open>
  The invariant of the loop over the links: the URLs collected so far differ from each
  other and from \<open>base_url\<close>, and no title is empty.
\<close>

definition links_ok :: "string \<Rightarrow> subgroup list \<Rightarrow> bool" where
  "links_ok base_url ls \<longleftrightarrow>
     distinct (map sg_url ls) \<and> (\<forall>e\<in>set ls. sg_url e \<noteq> base_url \<and> sg_title e \<noteq> [])"

text \<open>The answer to a request is a transport error: no complete body arrives.\<close>

definition transport_error :: "response \<Rightarrow> bool" where
  "transport_error r = (case r of Complete chunks \<Rightarrow> False | _ \<Rightarrow> True)"

text \<open>The path \<open>main\<close> derives from the title of an entry.\<close>

definition derived_path :: "string \<Rightarrow> string" where
  "derived_path ttl = path_join DOWNLOAD_DIR (sanitize_filename ttl)"

text \<open>The state after the download of an entry, before the delay.\<close>

definition after_download ::
  "env \<Rightarrow> string \<times> string \<Rightarrow> batch_state \<Rightarrow> batch_state" where
  "after_download E entry s =
     (let r = download_file E (snd entry) (derived_path (fst entry)) MAX_RETRIES
                (log_event (Exists (derived_path (fst entry))) (snd (snd s)))
      in if fst r
         then (let tw = mark_downloaded E (snd entry) (sanitize_filename (fst entry)) (fst entry)
                          (fst s, snd r)
               in (fst tw, (fst (snd s))\<lparr>downloaded := downloaded (fst (snd s)) + 1\<rparr>, snd tw))
         else (fst s, (fst (snd s))\<lparr>failed := failed (fst (snd s)) + 1\<rparr>, snd r))"

text \<open>
  The remote side answers a URL in the same way at every request, and the first answer
  to a URL is a complete body.
\<close>

definition steady :: "env \<Rightarrow> bool" where
  "steady E \<longleftrightarrow> (\<forall>u n. respond E u n = respond E u 0)"

definition succeeds :: "env \<Rightarrow> string \<Rightarrow> bool" where
  "succeeds E u = (\<not> transport_error (respond E u 0))"

text \<open>The tracker holds what the tracking file stores.\<close>

definition synced :: "tracker \<Rightarrow> world \<Rightarrow> bool" where
  "synced t w \<longleftrightarrow> load_tracking_data w = data t"

text \<open>
  A response of the pagination API ends the loop when the request failed, when the body
  is empty or whitespace only, or when the fragment holds no matching anchor. Any other
  response is a batch; \<open>batch_records\<close> are the titled records of its anchors.
\<close>

definition ends_pagination :: "web \<Rightarrow> http_result \<Rightarrow> bool" where
  "ends_pagination W r =
     (case r of
        RequestException \<Rightarrow> True
      | Response text \<Rightarrow>
          text = [] \<or> strip text = [] \<or> fragment_case_elements (soup W text) = [])"

definition batch_records :: "web \<Rightarrow> http_result \<Rightarrow> case_data list" where
  "batch_records W r =
     (case r of
        RequestException \<Rightarrow> []
      | Response text \<Rightarrow> titled_records (fragment_case_elements (soup W text)))"

text \<open>The response to the call number \<open>i\<close> of a run that starts at \<open>offset\<close>.\<close>

definition api_response :: "web \<Rightarrow> string \<Rightarrow> string \<Rightarrow> int \<Rightarrow> nat \<Rightarrow> http_result" where
  "api_response W pid base_nid offset i = get_api W i pid base_nid (offset + 10 * int i)"

text \<open>The number of entries the counters account for.\<close>

definition processed :: "counts \<Rightarrow> nat" where
  "processed c = downloaded c + skipped c + failed c"

section \<open>Example inputs\<close>

text \<open>A links file whose first URL line comes before the first numbered title.\<close>

definition url_first_links :: string where
  "url_first_links =
     ''=== LINKS ==='' @ [CHR 0x0A] @
     '' http://example.com/intro.PDF '' @ [CHR 0x0A] @
     ''1. Case Alpha'' @ [CHR 0x0A] @
     ''http://example.com/a.pdf'' @ [CHR 0x0A]"

text \<open>An element with two paragraphs that start with \<open>By\<close>.\<close>

definition two_bylines :: element where
  "two_bylines =
     \<lparr>href = Some ''/teaching-resources-library/case-a'', h3_text = Some ''Case A'',
      p_texts = [''By Ann Lee'', ''A long description of the case'', ''By Bob Ray, Cy Day''],
      div_text = None\<rparr>"

text \<open>
  A scraper whose page holds six links: two subgroups, a repeat of the first, the page
  itself, a subgroup link without text, and a link that leads elsewhere. \<open>urljoin\<close> is the join of a site-relative
  path.
\<close>

definition demo_links :: "link list" where
  "demo_links =
     [\<lparr>link_href = ''/teaching-resources-library/case-a'', link_text = ''Operations''\<rparr>,
      \<lparr>link_href = ''/teaching-resources-library/Case-b'', link_text = ''Strategy''\<rparr>,
      \<lparr>link_href = ''/teaching-resources-library/case-a'', link_text = ''Operations again''\<rparr>,
      \<lparr>link_href = ''/teaching-resources-library/case-studies'', link_text = ''Home''\<rparr>,
      \<lparr>link_href = ''/teaching-resources-library/case-c'', link_text = ''''\<rparr>,
      \<lparr>link_href = ''/about'', link_text = ''About''\<rparr>]"

definition demo_scraper :: scraper where
  "demo_scraper =
     \<lparr>fetch = (\<lambda>u. Response ''<html>''), find_links = (\<lambda>content. demo_links),
      urljoin = (\<lambda>base h. ''https://mitsloan.mit.edu'' @ h)\<rparr>"

text \<open>The same scraper when the request for the page fails.\<close>

definition offline_scraper :: scraper where
  "offline_scraper =
     \<lparr>fetch = (\<lambda>u. RequestException), find_links = (\<lambda>content. demo_links),
      urljoin = (\<lambda>base h. ''https://mitsloan.mit.edu'' @ h)\<rparr>"

text \<open>The default \<open>base_url\<close> of \<open>get_case_study_links\<close>.\<close>

definition demo_base :: string where
  "demo_base = ''https://mitsloan.mit.edu/teaching-resources-library/case-studies''"

text \<open>
  A remote side that breaks off every body after one chunk, an empty world, an empty
  tracker, counters at zero, and an entry.
\<close>

definition dead_remote :: env where
  "dead_remote =
     \<lparr>respond = (\<lambda>u n. Interrupted [''%PDF'']), strftime = (\<lambda>n. ''2024-01-01 00:00:00'')\<rparr>"

definition empty_world :: world where
  "empty_world = \<lparr>files = Map.empty, tracking = NoFile, trace = []\<rparr>"

definition empty_tracker :: tracker where
  "empty_tracker = \<lparr>data = Map.empty\<rparr>"

definition zero_counts :: counts where
  "zero_counts = \<lparr>downloaded = 0, skipped = 0, failed = 0\<rparr>"

definition alpha_url :: string where
  "alpha_url = ''http://example.com/a.pdf''"

text \<open>A world with a file at the derived path of the title \<open>Case Alpha\<close>.\<close>

definition alpha_on_disk :: world where
  "alpha_on_disk =
     \<lparr>files = [derived_path ''Case Alpha'' \<mapsto> ''%PDF-1.4''], tracking = NoFile, trace = []\<rparr>"

text \<open>A tracker that holds the key of the URL.\<close>

definition alpha_tracked :: tracker where
  "alpha_tracked =
     \<lparr>data = [get_url_hash alpha_url \<mapsto>
        \<lparr>entry_url = alpha_url, entry_filename = ''Case_Alpha.pdf'',
         entry_title = ''Case Alpha'', entry_downloaded_at = ''2024-01-01 00:00:00''\<rparr>]\<rparr>"

text \<open>A remote side that answers every request with a complete body.\<close>

definition echo_remote :: env where
  "echo_remote =
     \<lparr>respond = (\<lambda>u n. Complete [''%PDF'', ''-1.4'']), strftime = (\<lambda>n. ''2024-01-01 00:00:00'')\<rparr>"

text \<open>
  A site with one case on the listing page, a link back to the listing, a \<open>Load More\<close>
  link, and two batches behind the API; the third call gets a body of blanks.
\<close>

definition case_link :: "string \<Rightarrow> string \<Rightarrow> element" where
  "case_link path heading =
     \<lparr>href = Some (''/teaching-resources-library/'' @ path), h3_text = Some heading,
      p_texts = [], div_text = None\<rparr>"

definition more_url :: string where
  "more_url = ''/api/loadmore/dynamic_list_master?pid=66387&offset=10&base_nid=19867''"

definition listing_doc :: document where
  "listing_doc =
     \<lparr>anchors =
        [\<lparr>href = Some ''/teaching-resources-library/mit-sloan-case-studies-0'',
          h3_text = Some ''Case Studies'', p_texts = [], div_text = None\<rparr>,
         case_link ''a'' ''Case A''],
      load_more =
        Some \<lparr>href = Some more_url, h3_text = None, p_texts = [], div_text = None\<rparr>\<rparr>"

definition demo_web :: web where
  "demo_web =
     \<lparr>get_page = (\<lambda>u. Response ''P''),
      get_api = (\<lambda>n pid base_nid offset.
         if offset = 10 then Response ''B'' else if offset = 20 then Response ''C''
         else Response ''  ''),
      soup = (\<lambda>text.
         if text = ''P'' then listing_doc
         else if text = ''B'' then \<lparr>anchors = [case_link ''b'' ''Case B''], load_more = None\<rparr>
         else if text = ''C'' then
           \<lparr>anchors = [case_link ''c'' ''Case C'', case_link ''d'' []], load_more = None\<rparr>
         else \<lparr>anchors = [], load_more = None\<rparr>),
      query = (\<lambda>u key.
         if key = ''pid'' then Some [''66387'']
         else if key = ''base_nid'' then Some [''19867'']
         else if key = ''offset'' then Some [''10''] else None),
      int_of_str = (\<lambda>s. if s = ''10'' then Some 10 else None)\<rparr>"

text \<open>The record of a \<open>case_link\<close>.\<close>

definition case_record :: "string \<Rightarrow> string \<Rightarrow> case_data" where
  "case_record path heading =
     \<lparr>url = ''https://mitsloan.mit.edu/teaching-resources-library/'' @ path,
      title = Some heading, authors = [], description = [], date = [], categories = None\<rparr>"

text \<open>
  The standard test message \<open>abc\<close> of SHA-256: its padded block, its message
  schedule, and the registers after sixteen, thirty-two, forty-eight and sixty-four
  rounds.
\<close>

definition abc_block :: "byte list" where
  "abc_block =
     [0x61, 0x62, 0x63, 0x80, 0x00, 0x00, 0x00, 0x00, 0x00, 0x00, 0x00, 0x00, 0x00, 0x00, 0x00, 0x00,
      0x00, 0x00, 0x00, 0x00, 0x00, 0x00, 0x00, 0x00, 0x00, 0x00, 0x00, 0x00, 0x00, 0x00, 0x00, 0x00,
      0x00, 0x00, 0x00, 0x00, 0x00, 0x00, 0x00, 0x00, 0x00, 0x00, 0x00, 0x00, 0x00, 0x00, 0x00, 0x00,
      0x00, 0x00, 0x00, 0x00, 0x00, 0x00, 0x00, 0x00, 0x00, 0x00, 0x00, 0x00, 0x00, 0x00, 0x00, 0x18]"

definition abc_w :: "u32 list" where
  "abc_w =
     [0x61626380, 0x00000000, 0x00000000, 0x00000000, 0x00000000, 0x00000000, 0x00000000,
      0x00000000, 0x00000000, 0x00000000, 0x00000000, 0x00000000, 0x00000000, 0x00000000,
      0x00000000, 0x00000018, 0x61626380, 0x000F0000, 0x7DA86405, 0x600003C6, 0x3E9D7B78,
      0x0183FC00, 0x12DCBFDB, 0xE2E2C38E, 0xC8215C1A, 0xB73679A2, 0xE5BC3909, 0x32663C5B,
      0x9D209D67, 0xEC8726CB, 0x702138A4, 0xD3B7973B, 0x93F5997F, 0x3B68BA73, 0xAFF4FFC1,
      0xF10A5C62, 0x0A8B3996, 0x72AF830A, 0x9409E33E, 0x24641522, 0x9F47BF94, 0xF0A64F5A,
      0x3E246A79, 0x27333BA3, 0x0C4763F2, 0x840ABF27, 0x7A290D5D, 0x065C43DA, 0xFB3E89CB,
      0xCC7617DB, 0xB9E66C34, 0xA9993667, 0x84BADEDD, 0xC21462BC, 0x1487472C, 0xB20F7A99,
      0xEF57B9CD, 0xEBE6B238, 0x9FE3095E, 0x78BC8D4B, 0xA43FCF15, 0x668B2FF8, 0xEEABA2CC,
      0x12B1EDEB]"

definition abc_r16 :: sha_regs where
  "abc_r16 =
     \<lparr>ra = 0xB0FA238E, rb = 0xC0645FDE, rc = 0xD932EB16, rd = 0x87912990,
     re = 0x07590DCD, rf = 0x0B92F20C, rg = 0x745A48DE, rh = 0x1E578218\<rparr>"

definition abc_r32 :: sha_regs where
  "abc_r32 =
     \<lparr>ra = 0x73B33BF5, rb = 0xEA992A22, rc = 0xA0060B30, rd = 0x363482C9,
     re = 0xBA591112, rf = 0x0109AB3A, rg = 0xADE79437, rh = 0x6112A3B7\<rparr>"

definition abc_r48 :: sha_regs where
  "abc_r48 =
     \<lparr>ra = 0x4172328D, rb = 0xA14C14B0, rc = 0x72AB4B91, rd = 0x26628815,
     re = 0xFECF0BC6, rf = 0xD57B94A9, rg = 0xB7755DA1, rh = 0xA80F11F0\<rparr>"

definition abc_r64 :: sha_regs where
  "abc_r64 =
     \<lparr>ra = 0x506E3058, rb = 0xD39A2165, rc = 0x04D24D6C, rd = 0xB85E2CE9,
     re = 0x5EF50F24, rf = 0xFB121210, rg = 0x948D25B6, rh = 0x961F4894\<rparr>"

section \<open>Evaluating the string functions\<close>

lemma lower_char_eval:
  "lower_char c =
     (if c \<in> set upper_letters
      then (case map_of (zip upper_letters lower_letters) c of None \<Rightarrow> c | Some d \<Rightarrow> d)
      else c)"
proof (cases "c \<in> set upper_letters")
  case True
  then show ?thesis by (simp add: lower_char_def)
next
  case False
  then have "map_of (zip upper_letters lower_letters) c = None"
    by (auto simp: map_of_eq_None_iff dest: set_zip_leftD)
  with False show ?thesis by (simp add: lower_char_def)
qed

section \<open>Properties of link extraction\<close>

lemma startswith_append: "startswith s p \<longleftrightarrow> (\<exists>r. s = p @ r)"
  by (induction s p rule: startswith.induct) auto

lemma label_prefix_http: "startswith line ''http'' \<Longrightarrow> label_prefix line = None"
  by (auto simp: label_prefix_def startswith_append)

lemma url_match_http: "startswith line ''http'' \<Longrightarrow> url_match line = None"
  by (simp add: url_match_def label_prefix_http)

lemma title_match_http: "startswith line ''http'' \<Longrightarrow> title_match line = None"
  by (auto simp: title_match_def startswith_append is_digit_def)

lemma is_header_http: "startswith line ''http'' \<Longrightarrow> \<not> is_header line"
  by (auto simp: is_header_def startswith_append)

lemma is_pdf_url_not_header: "is_pdf_url line \<Longrightarrow> \<not> is_header line"
  by (simp add: is_pdf_url_def is_header_http)

lemma extract_loop_untitled:
  "\<forall>p\<in>set pre. title_match (strip p) = None \<Longrightarrow>
   extract_loop [] (pre @ rest) =
     map (\<lambda>p. ([], strip p)) (filter (\<lambda>p. is_pdf_url (strip p)) pre) @ extract_loop [] rest"
proof (induction pre)
  case Nil
  then show ?case by simp
next
  case (Cons raw pre)
  then have ih: "extract_loop [] (pre @ rest) =
     map (\<lambda>p. ([], strip p)) (filter (\<lambda>p. is_pdf_url (strip p)) pre) @ extract_loop [] rest"
    and nt: "title_match (strip raw) = None"
    by simp_all
  show ?case
  proof (cases "is_pdf_url (strip raw)")
    case True
    then have "url_match (strip raw) = None" "\<not> is_header (strip raw)"
      by (simp_all add: is_pdf_url_def url_match_http is_header_http)
    with True nt ih show ?thesis by (simp add: Let_def)
  next
    case False
    with nt ih show ?thesis by (simp add: Let_def)
  qed
qed

lemma extract_loop_url_line:
  "is_pdf_url (strip l) \<Longrightarrow>
   extract_loop current_title (l # post) = (current_title, strip l) # extract_loop current_title post"
  by (simp add: Let_def is_pdf_url_def url_match_http is_header_http title_match_http)

text \<open>
  Claim C1. On the five lines of the specification's example the source returns no entry
  at all, not the three entries the specification lists: no line of the example starts
  with \<open>http\<close>, and a line with a label is read only after that test
  (\<open>url_match_http\<close>: the branch for labels can never be taken).
\<close>

theorem extract_example_empty: "extract_pdf_urls example_links = []"
  by (simp add: extract_pdf_urls_def example_links_def file_lines_def strip_def is_space_def
      whitespace_chars_def is_header_def title_match_def is_digit_def is_pdf_url_def)

text \<open>
  Claim C9. When a line that starts with \<open>http\<close> and contains \<open>.pdf\<close> (in any
  case) comes before every numbered title line of the file, \<open>extract_pdf_urls\<close>
  emits an entry for it whose title is the empty string: the result is the entries of
  the URL lines before it, all with the empty title, then \<open>('', line)\<close>, then the
  entries of the lines after it.
\<close>

theorem url_before_titles_has_empty_title:
  assumes "file_lines text = pre @ l # post"
    and "\<forall>p\<in>set pre. title_match (strip p) = None"
    and "is_pdf_url (strip l)"
  shows "extract_pdf_urls text =
           map (\<lambda>p. ([], strip p)) (filter (\<lambda>p. is_pdf_url (strip p)) pre)
             @ ([], strip l) # extract_loop [] post
         \<and> ([], strip l) \<in> set (extract_pdf_urls text)"
proof -
  have "extract_pdf_urls text = extract_loop [] (pre @ l # post)"
    by (simp add: extract_pdf_urls_def assms(1))
  also have "\<dots> = map (\<lambda>p. ([], strip p)) (filter (\<lambda>p. is_pdf_url (strip p)) pre)
             @ extract_loop [] (l # post)"
    by (rule extract_loop_untitled [OF assms(2)])
  also have "extract_loop [] (l # post) = ([], strip l) # extract_loop [] post"
    by (rule extract_loop_url_line [OF assms(3)])
  finally show ?thesis by simp
qed

lemma file_lines_url_first:
  "file_lines url_first_links =
     [''=== LINKS ==='', '' http://example.com/intro.PDF '', ''1. Case Alpha'', ''http://example.com/a.pdf'']"
  by (simp add: url_first_links_def file_lines_def)

lemma strip_intro: "strip '' http://example.com/intro.PDF '' = ''http://example.com/intro.PDF''"
  by (simp add: strip_def is_space_def whitespace_chars_def)

theorem url_before_titles_witness:
  "file_lines url_first_links =
     [''=== LINKS ===''] @ '' http://example.com/intro.PDF '' #
       [''1. Case Alpha'', ''http://example.com/a.pdf'']
   \<and> is_pdf_url (strip '' http://example.com/intro.PDF '')
   \<and> extract_pdf_urls url_first_links =
       [([], ''http://example.com/intro.PDF''), (''Case Alpha'', ''http://example.com/a.pdf'')]"
proof -
  have h1: "file_lines url_first_links =
     [''=== LINKS ===''] @ '' http://example.com/intro.PDF '' #
       [''1. Case Alpha'', ''http://example.com/a.pdf'']"
    by (simp add: file_lines_url_first)
  have h2: "\<forall>p\<in>set [''=== LINKS ===''].  title_match (strip p) = None"
    by (simp add: strip_def is_space_def whitespace_chars_def title_match_def is_digit_def)
  have h3: "is_pdf_url (strip '' http://example.com/intro.PDF '')"
    by (simp add: strip_intro is_pdf_url_def lower_def lower_char_eval upper_letters_def lower_letters_def)
  have rest: "extract_loop [] [''1. Case Alpha'', ''http://example.com/a.pdf''] =
      [(''Case Alpha'', ''http://example.com/a.pdf'')]"
    by (simp add: strip_def is_space_def whitespace_chars_def is_header_def title_match_def
        is_digit_def is_pdf_url_def lower_def lower_char_eval upper_letters_def lower_letters_def url_match_def label_prefix_def)
  have h4: "\<not> is_pdf_url (strip ''=== LINKS ==='')"
    by (simp add: strip_def is_space_def whitespace_chars_def is_pdf_url_def)
  show ?thesis
    using url_before_titles_has_empty_title [OF h1 h2 h3] h1 h3 h4 rest strip_intro by simp
qed

section \<open>Properties of the file name\<close>

lemma set_sub_ws:
  "c \<in> set (sub_ws b s) \<Longrightarrow> (c \<in> set s \<and> \<not> is_space c) \<or> c = CHR ''_''"
  by (induction s arbitrary: b) (auto split: if_splits)

lemma underscore_not_space: "\<not> is_space CHR ''_''"
  by (simp add: is_space_def whitespace_chars_def)

lemma underscore_safe: "CHR ''_'' \<notin> set unsafe_chars"
  by (simp add: unsafe_chars_def)

lemma set_collapse_remove:
  assumes "c \<in> set (collapse_ws (remove_unsafe t))"
  shows "c \<notin> set unsafe_chars \<and> \<not> is_space c"
proof -
  from assms have "(c \<in> set (remove_unsafe t) \<and> \<not> is_space c) \<or> c = CHR ''_''"
    unfolding collapse_ws_def by (rule set_sub_ws)
  then show ?thesis
    by (auto simp: remove_unsafe_def underscore_not_space underscore_safe)
qed

lemma pdf_chars_ok: "c \<in> set ''.pdf'' \<Longrightarrow> c \<notin> set unsafe_chars \<and> \<not> is_space c"
  by (auto simp: unsafe_chars_def is_space_def whitespace_chars_def)

lemma sanitize_chars:
  assumes "c \<in> set (sanitize_filename t)"
  shows "c \<notin> set unsafe_chars \<and> \<not> is_space c"
proof -
  from assms have "c \<in> set (collapse_ws (remove_unsafe t)) \<or> c \<in> set ''.pdf''"
    by (auto simp: sanitize_filename_def Let_def split: if_splits dest: in_set_takeD)
  then show ?thesis
    using set_collapse_remove pdf_chars_ok by blast
qed

lemma sanitize_length: "length (sanitize_filename t) \<le> 204"
  by (simp add: sanitize_filename_def Let_def)

lemma startswith_uu: "startswith (x # r) ''__'' \<longleftrightarrow> x = CHR ''_'' \<and> startswith r ''_''"
  by simp

lemma sub_ws_no_double:
  "CHR ''_'' \<notin> set s \<Longrightarrow>
   \<not> contains (sub_ws b s) ''__'' \<and> (b \<longrightarrow> \<not> startswith (sub_ws b s) ''_'')"
proof (induction s arbitrary: b)
  case Nil
  then show ?case by simp
next
  case (Cons c s)
  then have c: "c \<noteq> CHR ''_''" and s: "CHR ''_'' \<notin> set s" by auto
  note ihT = Cons.IH [OF s, of True] and ihF = Cons.IH [OF s, of False]
  show ?case
  proof (cases "is_space c")
    case True
    with ihT show ?thesis by (cases b) simp_all
  next
    case False
    with c ihF show ?thesis by simp
  qed
qed

lemma startswith_take: "startswith (take n r) p \<Longrightarrow> startswith r p"
  by (auto simp: startswith_append) (metis append_take_drop_id append.assoc)

lemma contains_take: "contains (take n r) p \<Longrightarrow> p \<noteq> [] \<Longrightarrow> contains r p"
proof (induction r arbitrary: n)
  case Nil
  then show ?case by simp
next
  case (Cons c r)
  show ?case
  proof (cases n)
    case 0
    with Cons.prems show ?thesis by simp
  next
    case (Suc m)
    with Cons.prems have "startswith (take n (c # r)) p \<or> contains (take m r) p" by simp
    then show ?thesis
      using Cons.IH [of m] Cons.prems(2) startswith_take [of n "c # r" p] by auto
  qed
qed

lemma startswith_append_disjoint:
  "startswith (r @ t) p \<Longrightarrow> \<forall>c\<in>set p. c \<notin> set t \<Longrightarrow> startswith r p"
proof (induction r p rule: startswith.induct)
  case (1 s)
  then show ?case by simp
next
  case (2 p ps)
  then show ?case by (cases t) auto
next
  case (3 c cs p ps)
  then show ?case by auto
qed

lemma contains_disjoint_Nil:
  "contains t p \<Longrightarrow> p \<noteq> [] \<Longrightarrow> \<forall>c\<in>set p. c \<notin> set t \<Longrightarrow> False"
  by (induction t) (auto simp: startswith_append neq_Nil_conv)

lemma contains_append_disjoint:
  "contains (r @ t) p \<Longrightarrow> p \<noteq> [] \<Longrightarrow> \<forall>c\<in>set p. c \<notin> set t \<Longrightarrow> contains r p"
proof (induction r)
  case Nil
  then show ?case using contains_disjoint_Nil [of t p] by simp
next
  case (Cons c r)
  from Cons.prems(1) have "startswith ((c # r) @ t) p \<or> contains (r @ t) p" by simp
  then show ?case
    using Cons.IH Cons.prems(2,3) startswith_append_disjoint [of "c # r" t p] by auto
qed

lemma sanitize_no_double:
  assumes "CHR ''_'' \<notin> set t"
  shows "\<not> contains (sanitize_filename t) ''__''"
proof
  assume a: "contains (sanitize_filename t) ''__''"
  define r where "r = collapse_ws (remove_unsafe t)"
  define r' where "r' = (if length r > 200 then take 200 r else r)"
  have san: "sanitize_filename t = r' @ ''.pdf''"
    by (simp add: sanitize_filename_def Let_def r_def r'_def)
  have "CHR ''_'' \<notin> set (remove_unsafe t)"
    using assms by (simp add: remove_unsafe_def)
  then have nr: "\<not> contains r ''__''"
    unfolding r_def collapse_ws_def using sub_ws_no_double by blast
  have "contains r' ''__''"
    using a unfolding san by (rule contains_append_disjoint) simp_all
  then have "contains r ''__''"
    unfolding r'_def using contains_take [of 200 r "''__''"] by (auto split: if_splits)
  with nr show False by simp
qed

text \<open>
  Claim C5. For every title (empty or not) the name \<open>sanitize_filename\<close> returns
  holds none of the characters \<open>< > : " / \ | ? *\<close> and no whitespace character
  at all, so no run of whitespace of any length; it has at most 204 characters; every
  run of whitespace of the title has become one underscore, so that a title without an
  underscore of its own gives a name in which no two underscores are adjacent; and the
  name is a function of the title alone.
\<close>

theorem sanitize_filename_safe:
  "(\<forall>c\<in>set (sanitize_filename t). c \<notin> set unsafe_chars \<and> \<not> is_space c)
   \<and> length (sanitize_filename t) \<le> 204
   \<and> (CHR ''_'' \<notin> set t \<longrightarrow> \<not> contains (sanitize_filename t) ''__'')
   \<and> (t = t' \<longrightarrow> sanitize_filename t = sanitize_filename t')"
  using sanitize_chars [of _ t] sanitize_length [of t] sanitize_no_double [of t] by blast

lemma sanitize_example:
  "sanitize_filename ''Case:  Alpha / Beta?'' = ''Case_Alpha_Beta.pdf''"
  by (simp add: sanitize_filename_def collapse_ws_def remove_unsafe_def unsafe_chars_def
      is_space_def whitespace_chars_def)

theorem sanitize_filename_witness:
  "sanitize_filename ''Case:  Alpha / Beta?'' = ''Case_Alpha_Beta.pdf''
   \<and> CHR ''_'' \<notin> set ''Case:  Alpha / Beta?''
   \<and> \<not> contains ''Case_Alpha_Beta.pdf'' ''__''
   \<and> length ''Case_Alpha_Beta.pdf'' \<le> (204 :: nat)"
  using sanitize_filename_safe [of "''Case:  Alpha / Beta?''" "''Case:  Alpha / Beta?''"]
  by (simp add: sanitize_example)

section \<open>Properties of the catalog record\<close>

lemma p_step_authors:
  "fst (p_step st text) =
     (if startswith text ''By '' then map strip (split_on CHR '','' (drop 3 text)) else fst st)"
  by (simp add: p_step_def Let_def)

lemma foldl_p_step_authors:
  "fst (foldl p_step st ps) =
     (if bylines ps = [] then fst st
      else map strip (split_on CHR '','' (drop 3 (last (bylines ps)))))"
proof (induction ps rule: rev_induct)
  case Nil
  then show ?case by (simp add: bylines_def)
next
  case (snoc p ps)
  show ?case
  proof (cases "startswith p ''By ''")
    case True
    then show ?thesis
      by (simp add: p_step_authors bylines_def)
  next
    case False
    with snoc show ?thesis
      by (simp add: p_step_authors bylines_def)
  qed
qed

text \<open>
  Claim C2, as amended. The \<open>authors\<close> field of the record is the comma-split,
  whitespace-trimmed text, without its first three characters, of the last paragraph
  whose text starts with \<open>By\<close> and a space: the loop assigns \<open>authors\<close> at every
  such paragraph and never leaves early. Without such a paragraph the field is the empty
  list.
\<close>

theorem authors_from_last_match:
  "authors (parse_case_element e) =
     (if bylines (p_texts e) = [] then []
      else map strip (split_on CHR '','' (drop 3 (last (bylines (p_texts e))))))"
  by (simp add: parse_case_element_def Let_def foldl_p_step_authors)

lemma strip_names:
  "strip ''Ann Lee'' = ''Ann Lee''" "strip ''Bob Ray'' = ''Bob Ray''" "strip '' Cy Day'' = ''Cy Day''"
  by (simp_all add: strip_def is_space_def whitespace_chars_def)

theorem authors_from_last_match_witness:
  "authors (parse_case_element two_bylines) = [''Bob Ray'', ''Cy Day'']"
  using authors_from_last_match [of two_bylines]
  by (simp add: two_bylines_def bylines_def split_on_def strip_names)

text \<open>
  The claim as stated, with the first matching paragraph, fails on an element with two
  such paragraphs: the record holds the authors of the second.
\<close>

theorem authors_first_match_counterexample:
  "authors (parse_case_element two_bylines) \<noteq> spec_authors_first_match two_bylines"
  by (simp add: parse_case_element_def two_bylines_def spec_authors_first_match_def p_step_def
      Let_def split_on_def strip_names months_def)

section \<open>Properties of the subgroup links\<close>

lemma link_step_ok: "links_ok base_url acc \<Longrightarrow> links_ok base_url (link_step S base_url acc l)"
  by (auto simp: links_ok_def link_step_def Let_def)

lemma foldl_link_step_ok:
  "links_ok base_url acc \<Longrightarrow> links_ok base_url (foldl (link_step S base_url) acc ls)"
  by (induction ls arbitrary: acc) (simp_all add: link_step_ok)

lemma get_case_study_links_ok: "links_ok base_url (get_case_study_links S base_url)"
proof (cases "fetch S base_url")
  case RequestException
  then show ?thesis by (simp add: get_case_study_links_def links_ok_def)
next
  case (Response content)
  have "links_ok base_url []" by (simp add: links_ok_def)
  then show ?thesis
    using Response by (simp add: get_case_study_links_def foldl_link_step_ok)
qed

text \<open>
  Claim C10. Whatever the page, the parser and \<open>urljoin\<close> give, the entries of the
  list \<open>get_case_study_links\<close> returns have pairwise distinct URLs, each different
  from \<open>base_url\<close>, and non-empty titles; and when the request raises a
  \<open>RequestException\<close> the function returns the empty list.
\<close>

theorem case_study_links_invariant:
  "distinct (map sg_url (get_case_study_links S base_url))
   \<and> (\<forall>e\<in>set (get_case_study_links S base_url). sg_url e \<noteq> base_url \<and> sg_title e \<noteq> [])
   \<and> (fetch S base_url = RequestException \<longrightarrow> get_case_study_links S base_url = [])"
  using get_case_study_links_ok [of base_url S]
  by (simp add: links_ok_def get_case_study_links_def)

lemma demo_result:
  "get_case_study_links demo_scraper demo_base =
     [\<lparr>sg_title = ''Operations'',
       sg_url = ''https://mitsloan.mit.edu/teaching-resources-library/case-a''\<rparr>,
      \<lparr>sg_title = ''Strategy'',
       sg_url = ''https://mitsloan.mit.edu/teaching-resources-library/Case-b''\<rparr>]"
  by (simp add: get_case_study_links_def demo_scraper_def demo_links_def demo_base_def
      link_step_def Let_def lower_def lower_char_eval upper_letters_def lower_letters_def)

theorem case_study_links_witness:
  "get_case_study_links demo_scraper demo_base =
     [\<lparr>sg_title = ''Operations'',
       sg_url = ''https://mitsloan.mit.edu/teaching-resources-library/case-a''\<rparr>,
      \<lparr>sg_title = ''Strategy'',
       sg_url = ''https://mitsloan.mit.edu/teaching-resources-library/Case-b''\<rparr>]
   \<and> distinct (map sg_url (get_case_study_links demo_scraper demo_base))
   \<and> fetch offline_scraper demo_base = RequestException
   \<and> get_case_study_links offline_scraper demo_base = []"
  using case_study_links_invariant [of demo_scraper demo_base]
    case_study_links_invariant [of offline_scraper demo_base]
  by (simp add: demo_result offline_scraper_def)

section \<open>The ledger key on a test message\<close>

lemma rotr_mod:
  "n < 32 \<Longrightarrow> k < 32 \<Longrightarrow>
   (k + n) mod 32 = (if k + n < 32 then k + n else k + n - (32::nat))"
  by (simp add: le_mod_geq)

lemma rotr_bits: "n < 32 \<Longrightarrow> word_rotr n (w::u32) = drop_bit n w OR push_bit (32 - n) w"
proof (rule bit_word_eqI)
  fix k assume n: "n < 32" and "k < LENGTH(32)"
  then have k: "k < 32" by simp
  show "bit (word_rotr n w) k = bit (drop_bit n w OR push_bit (32 - n) w) k"
  proof (cases "k + n < 32")
    case True
    with n k show ?thesis
      by (auto simp: bit_simps rotr_mod add.commute)
  next
    case False
    then have "\<not> bit w (n + k)"
      using bit_imp_le_length [of w "n + k"] by (auto simp: add.commute)
    with False n k show ?thesis
      by (auto simp: bit_simps rotr_mod add.commute)
  qed
qed

lemma rotr_eval:
  "n < 32 \<Longrightarrow> word_rotr n (w::u32) = of_nat (unat (drop_bit n w OR push_bit (32 - n) w))"
  by (simp add: rotr_bits)

lemma abc_padded: "sha_pad (encode ''abc'') = abc_block"
  by code_simp

lemma abc_words: "block_words abc_block = take 16 abc_w"
  by code_simp

lemmas schedule_eval = schedule_step_def ssig0_def ssig1_def rotr_eval upt_rec_numeral abc_w_def

lemma abc_schedule_1: "foldl schedule_step (take 16 abc_w) [16..<32] = take 32 abc_w"
  by (simp add: schedule_eval)

lemma abc_schedule_2: "foldl schedule_step (take 32 abc_w) [32..<48] = take 48 abc_w"
  by (simp add: schedule_eval)

lemma abc_schedule_3: "foldl schedule_step (take 48 abc_w) [48..<64] = abc_w"
  by (simp add: schedule_eval)

lemma abc_schedule: "schedule (take 16 abc_w) = abc_w"
proof -
  have split: "[16..<64] = [16..<32] @ [32..<48] @ [48..<64::nat]"
    by (simp add: upt_rec_numeral)
  show ?thesis
    unfolding schedule_def split foldl_append abc_schedule_1 abc_schedule_2 abc_schedule_3
    by (rule refl)
qed

lemmas round_eval =
  sha_round_def Let_def bsig0_def bsig1_def ch_def maj_def rotr_eval sha_k_def abc_w_def
  regs_of_def sha_h0_def

lemma abc_rounds_1:
  "foldl sha_round (regs_of sha_h0) (take 16 (zip sha_k abc_w)) = abc_r16"
  by (simp add: round_eval abc_r16_def)

lemma abc_rounds_2:
  "foldl sha_round abc_r16 (take 16 (drop 16 (zip sha_k abc_w))) = abc_r32"
  by (simp add: round_eval abc_r16_def abc_r32_def)

lemma abc_rounds_3:
  "foldl sha_round abc_r32 (take 16 (drop 32 (zip sha_k abc_w))) = abc_r48"
  by (simp add: round_eval abc_r32_def abc_r48_def)

lemma abc_rounds_4:
  "foldl sha_round abc_r48 (drop 48 (zip sha_k abc_w)) = abc_r64"
  by (simp add: round_eval abc_r48_def abc_r64_def)

lemma split_in_four:
  "xs = take 16 xs @ take 16 (drop 16 xs) @ take 16 (drop 32 xs) @ drop 48 xs"
proof -
  have "drop 32 xs = take 16 (drop 32 xs) @ drop 48 xs"
    using append_take_drop_id [of 16 "drop 32 xs"] by simp
  moreover have "drop 16 xs = take 16 (drop 16 xs) @ drop 32 xs"
    using append_take_drop_id [of 16 "drop 16 xs"] by simp
  moreover have "xs = take 16 xs @ drop 16 xs" by simp
  ultimately show ?thesis by metis
qed

lemma abc_rounds: "foldl sha_round (regs_of sha_h0) (zip sha_k abc_w) = abc_r64"
proof -
  have "foldl sha_round (regs_of sha_h0) (zip sha_k abc_w) =
      foldl sha_round (regs_of sha_h0)
        (take 16 (zip sha_k abc_w) @ take 16 (drop 16 (zip sha_k abc_w)) @
         take 16 (drop 32 (zip sha_k abc_w)) @ drop 48 (zip sha_k abc_w))"
    using split_in_four [of "zip sha_k abc_w"] by simp
  also have "\<dots> = abc_r64"
    by (simp only: foldl_append abc_rounds_1 abc_rounds_2 abc_rounds_3 abc_rounds_4)
  finally show ?thesis .
qed

lemma upt_8: "[0..<8] = [0, 1, 2, 3, 4, 5, 6, 7::nat]"
  by (simp add: upt_conv_Cons)

lemma abc_sum:
  "map2 (+) sha_h0 (regs_list abc_r64) =
     [0xBA7816BF, 0x8F01CFEA, 0x414140DE, 0x5DAE2223, 0xB00361A3, 0x96177A9C, 0xB410FF61,
      0xF20015AD]"
  by (simp add: sha_h0_def regs_list_def abc_r64_def)

lemma abc_hex:
  "hexdigest
     [0xBA7816BF, 0x8F01CFEA, 0x414140DE, 0x5DAE2223, 0xB00361A3, 0x96177A9C, 0xB410FF61,
      0xF20015AD] =
     ''ba7816bf8f01cfea414140de5dae2223b00361a396177a9cb410ff61f20015ad''"
  by (simp add: hexdigest_def hex_word_def hex_digit_def hex_chars_def upt_8)

lemma abc_digest:
  "hexdigest (sha256 (encode ''abc'')) =
     ''ba7816bf8f01cfea414140de5dae2223b00361a396177a9cb410ff61f20015ad''"
proof -
  have "length abc_block = 64"
    by (simp add: abc_block_def)
  then have "sha256 (encode ''abc'') = compress sha_h0 abc_block"
    by (simp add: sha256_def abc_padded Let_def)
  also have "\<dots> = map2 (+) sha_h0 (regs_list abc_r64)"
    by (simp only: compress_def abc_words abc_schedule abc_rounds)
  finally show ?thesis
    by (simp only: abc_sum abc_hex)
qed

text \<open>The key of the URL \<open>abc\<close> is the start of the digest that FIPS 180-4 lists for it.\<close>

lemma get_url_hash_abc: "get_url_hash ''abc'' = ''ba7816bf8f01cfea''"
  by (simp add: get_url_hash_def abc_digest)

section \<open>Properties of the ledger\<close>

lemma length_compress: "length h = 8 \<Longrightarrow> length (compress h block) = 8"
  by (simp add: compress_def regs_list_def)

lemma length_foldl_compress: "length h = 8 \<Longrightarrow> length (foldl compress h blocks) = 8"
  by (induction blocks arbitrary: h) (simp_all add: length_compress)

lemma length_sha256: "length (sha256 m) = 8"
  by (simp add: sha256_def Let_def length_foldl_compress sha_h0_def)

lemma length_hex_word: "length (hex_word w) = 8"
  by (simp add: hex_word_def)

lemma length_hexdigest: "length (hexdigest h) = 8 * length h"
  by (induction h) (simp_all add: hexdigest_def length_hex_word)

lemma hex_digit_in: "hex_digit n \<in> set hex_chars"
proof -
  have "unat (n AND 15) \<le> unat (15 :: u32)"
    by (rule word_and_le1 [THEN word_le_nat_alt [THEN iffD1]])
  then have "unat (n AND 15) < length hex_chars" by (simp add: hex_chars_def)
  then show ?thesis
    unfolding hex_digit_def by (rule nth_mem)
qed

lemma set_hex_word: "set (hex_word w) \<subseteq> set hex_chars"
  by (auto simp: hex_word_def hex_digit_in)

lemma set_hexdigest: "set (hexdigest h) \<subseteq> set hex_chars"
proof (induction h)
  case Nil
  then show ?case by (simp add: hexdigest_def)
next
  case (Cons w h)
  then show ?case
    using set_hex_word [of w] by (simp add: hexdigest_def)
qed

lemma length_get_url_hash: "length (get_url_hash u) = 16"
  by (simp add: get_url_hash_def length_hexdigest length_sha256)

lemma set_get_url_hash: "set (get_url_hash u) \<subseteq> set hex_chars"
proof -
  have "set (get_url_hash u) \<subseteq> set (hexdigest (sha256 (encode u)))"
    unfolding get_url_hash_def by (rule set_take_subset)
  then show ?thesis
    using set_hexdigest by (rule subset_trans)
qed

lemma data_mark_downloaded:
  "data (fst (mark_downloaded E u filename ttl (t, w))) =
     (data t)(get_url_hash u \<mapsto>
        \<lparr>entry_url = u, entry_filename = filename, entry_title = ttl,
         entry_downloaded_at = strftime E (length (trace w))\<rparr>)"
  by (simp add: mark_downloaded_def Let_def)

lemma tracking_mark_downloaded:
  "tracking (snd (mark_downloaded E u filename ttl (t, w))) =
     Stored (data (fst (mark_downloaded E u filename ttl (t, w))))"
  by (simp add: mark_downloaded_def Let_def save_tracking_data_def log_event_def)

lemma files_mark_downloaded:
  "files (snd (mark_downloaded E u filename ttl (t, w))) = files w"
  by (simp add: mark_downloaded_def Let_def save_tracking_data_def log_event_def)

lemma trace_mark_downloaded:
  "trace (snd (mark_downloaded E u filename ttl (t, w))) = trace w @ [SaveTracking]"
  by (simp add: mark_downloaded_def Let_def save_tracking_data_def log_event_def)

lemma is_downloaded_mark:
  "is_downloaded (fst (mark_downloaded E u filename ttl (t, w))) v \<longleftrightarrow>
     v = u \<or> get_url_hash v = get_url_hash u \<or> is_downloaded t v"
  by (auto simp: is_downloaded_def data_mark_downloaded)

text \<open>
  Claim C4. After \<open>mark_downloaded\<close> for a URL, a fresh \<open>DownloadTracker\<close> that
  loads the tracking file finds the URL downloaded, whatever the tracker held, whatever
  the file held before, and whatever title and file name were given; the keys it loads
  are the old keys and the key of the URL. The key is a function of the URL string
  alone (the title is no argument of \<open>get_url_hash\<close>): sixteen characters, each a
  lower-case hexadecimal digit.
\<close>

theorem ledger_round_trip:
  "is_downloaded (DownloadTracker (snd (mark_downloaded E u filename ttl (t, w)))) u
   \<and> dom (data (DownloadTracker (snd (mark_downloaded E u filename ttl (t, w))))) =
       insert (get_url_hash u) (dom (data t))
   \<and> length (get_url_hash u) = 16
   \<and> set (get_url_hash u) \<subseteq> set hex_chars"
  by (simp add: DownloadTracker_def load_tracking_data_def tracking_mark_downloaded
      is_downloaded_def data_mark_downloaded length_get_url_hash set_get_url_hash)

section \<open>Properties of the downloader\<close>

lemma log_event_simps:
  "files (log_event e w) = files w"
  "tracking (log_event e w) = tracking w"
  "trace (log_event e w) = trace w @ [e]"
  by (simp_all add: log_event_def)

lemma write_chunks_simps:
  "files (write_chunks p chunks w) = (files w)(p \<mapsto> concat (filter (\<lambda>c. c \<noteq> []) chunks))"
  "tracking (write_chunks p chunks w) = tracking w"
  "trace (write_chunks p chunks w) = trace w @ [Write p]"
  by (simp_all add: write_chunks_def log_event_simps)

lemma is_get_simps:
  "is_get (Get u)" "\<not> is_get (Exists p)" "\<not> is_get (Write p)" "\<not> is_get (Remove p)"
  "\<not> is_get SaveTracking" "\<not> is_get RetrySleep" "\<not> is_get PoliteSleep"
  by (simp_all add: is_get_def)

lemma on_request_exception_retry:
  "0 < left \<Longrightarrow> on_request_exception p left w = (None, log_event RetrySleep w)"
  by (simp add: on_request_exception_def)

lemma on_request_exception_last:
  "fst (on_request_exception p 0 w) = Some False"
  "files (snd (on_request_exception p 0 w)) = (files w)(p := None)"
  "tracking (snd (on_request_exception p 0 w)) = tracking w"
  "filter is_get (trace (snd (on_request_exception p 0 w))) = filter is_get (trace w)"
  by (auto simp: on_request_exception_def Let_def log_event_simps is_get_simps)

lemma tracking_on_request_exception:
  "tracking (snd (on_request_exception p left w)) = tracking w"
  by (simp add: on_request_exception_def Let_def log_event_simps)

lemma tracking_attempt_download:
  "tracking (snd (attempt_download E u p left w)) = tracking w"
  by (simp add: attempt_download_def Let_def tracking_on_request_exception log_event_simps
      write_chunks_simps split: response.splits)

lemma tracking_download_loop: "tracking (snd (download_loop E u p k w)) = tracking w"
proof (induction k arbitrary: w)
  case 0
  then show ?case by simp
next
  case (Suc k)
  show ?case
  proof (cases "attempt_download E u p k w")
    case (Pair r w')
    then have "tracking w' = tracking w"
      using tracking_attempt_download [of E u p k w] by simp
    with Pair Suc show ?thesis by (cases r) simp_all
  qed
qed

text \<open>One attempt that meets a transport error.\<close>

lemma attempt_error_retry:
  assumes "transport_error (respond E u (request_count w))" and "0 < left"
  shows "fst (attempt_download E u p left w) = None
       \<and> filter is_get (trace (snd (attempt_download E u p left w))) =
           filter is_get (trace w) @ [Get u]"
  using assms
  by (auto simp: attempt_download_def Let_def transport_error_def on_request_exception_retry
      log_event_simps write_chunks_simps is_get_simps split: response.splits)

lemma attempt_error_last:
  assumes "transport_error (respond E u (request_count w))"
  shows "fst (attempt_download E u p 0 w) = Some False
       \<and> files (snd (attempt_download E u p 0 w)) p = None
       \<and> filter is_get (trace (snd (attempt_download E u p 0 w))) =
           filter is_get (trace w) @ [Get u]"
  using assms
  by (auto simp: attempt_download_def Let_def transport_error_def on_request_exception_last
      log_event_simps write_chunks_simps is_get_simps split: response.splits)

lemma download_loop_fails:
  assumes "\<And>n. transport_error (respond E u n)"
  shows "fst (download_loop E u p (Suc k) w) = False
       \<and> files (snd (download_loop E u p (Suc k) w)) p = None
       \<and> filter is_get (trace (snd (download_loop E u p (Suc k) w))) =
           filter is_get (trace w) @ replicate (Suc k) (Get u)"
proof (induction k arbitrary: w)
  case 0
  obtain r w' where a: "attempt_download E u p 0 w = (r, w')"
    by (cases "attempt_download E u p 0 w")
  with attempt_error_last [of E u w p, OF assms] have "r = Some False" "files w' p = None"
    "filter is_get (trace w') = filter is_get (trace w) @ [Get u]"
    by simp_all
  with a show ?case by simp
next
  case (Suc k)
  obtain r w' where a: "attempt_download E u p (Suc k) w = (r, w')"
    by (cases "attempt_download E u p (Suc k) w")
  with attempt_error_retry [of E u w "Suc k" p, OF assms] have r: "r = None"
    and g: "filter is_get (trace w') = filter is_get (trace w) @ [Get u]"
    by simp_all
  from a r have "download_loop E u p (Suc (Suc k)) w = download_loop E u p (Suc k) w'"
    by simp
  with Suc [of w'] g show ?case
    by (simp add: replicate_append_same)
qed

lemma attempt_trace:
  "\<exists>evs. trace (snd (attempt_download E u p left w)) = trace w @ Get u # evs"
  by (auto simp: attempt_download_def Let_def on_request_exception_def log_event_simps
      write_chunks_simps split: response.splits)

lemma download_loop_trace_mono:
  "\<exists>evs. trace (snd (download_loop E u p k w)) = trace w @ evs"
proof (induction k arbitrary: w)
  case 0
  then show ?case by simp
next
  case (Suc k)
  obtain r w' where a: "attempt_download E u p k w = (r, w')"
    by (cases "attempt_download E u p k w")
  from attempt_trace [of E u p k w] a obtain evs where e: "trace w' = trace w @ Get u # evs"
    by auto
  show ?case
  proof (cases r)
    case None
    from Suc [of w'] obtain evs' where "trace (snd (download_loop E u p k w')) = trace w' @ evs'"
      by auto
    with a None e show ?thesis by simp
  next
    case (Some b)
    with a e show ?thesis by simp
  qed
qed

lemma download_loop_first_request:
  "\<exists>evs. trace (snd (download_loop E u p (Suc k) w)) = trace w @ Get u # evs"
proof -
  obtain r w' where a: "attempt_download E u p k w = (r, w')"
    by (cases "attempt_download E u p k w")
  from attempt_trace [of E u p k w] a obtain evs where e: "trace w' = trace w @ Get u # evs"
    by auto
  show ?thesis
  proof (cases r)
    case None
    from download_loop_trace_mono [of E u p k w'] obtain evs'
      where "trace (snd (download_loop E u p k w')) = trace w' @ evs'"
      by auto
    with a None e show ?thesis by simp
  next
    case (Some b)
    with a e show ?thesis by simp
  qed
qed

text \<open>The three ways through the body of the loop of \<open>main\<close>.\<close>

lemma process_entry_tracked:
  "is_downloaded t u \<Longrightarrow>
   process_entry E len idx (ttl, u) (t, c, w) = (t, c\<lparr>skipped := skipped c + 1\<rparr>, w)"
  by (simp add: process_entry_def Let_def)

lemma process_entry_adopt:
  assumes "\<not> is_downloaded t u" and "derived_path ttl \<in> dom (files w)"
  shows "process_entry E len idx (ttl, u) (t, c, w) =
           (fst (mark_downloaded E u (sanitize_filename ttl) ttl
                  (t, log_event (Exists (derived_path ttl)) w)),
            c\<lparr>skipped := skipped c + 1\<rparr>,
            snd (mark_downloaded E u (sanitize_filename ttl) ttl
                  (t, log_event (Exists (derived_path ttl)) w)))"
  using assms by (simp add: process_entry_def Let_def derived_path_def log_event_simps)

lemma process_entry_download:
  assumes "\<not> is_downloaded t u" and "derived_path ttl \<notin> dom (files w)"
  shows "process_entry E len idx (ttl, u) (t, c, w) =
           (let s' = after_download E (ttl, u) (t, c, w) in
            if idx < len then (fst s', fst (snd s'), log_event PoliteSleep (snd (snd s')))
            else s')"
  using assms
  by (simp add: process_entry_def after_download_def Let_def derived_path_def log_event_simps)

lemma after_download_fails:
  assumes "\<And>n. transport_error (respond E u n)"
  shows "after_download E (ttl, u) (t, c, w) =
           (t, c\<lparr>failed := failed c + 1\<rparr>,
            snd (download_file E u (derived_path ttl) MAX_RETRIES
                   (log_event (Exists (derived_path ttl)) w)))"
  using download_loop_fails [of E u "derived_path ttl" 2, OF assms]
  by (simp add: after_download_def Let_def download_file_def MAX_RETRIES_def
      numeral_3_eq_3)

lemma download_file_fails:
  assumes "\<And>n. transport_error (respond E u n)"
  shows "fst (download_file E u p MAX_RETRIES w) = False
       \<and> files (snd (download_file E u p MAX_RETRIES w)) p = None
       \<and> filter is_get (trace (snd (download_file E u p MAX_RETRIES w))) =
           filter is_get (trace w) @ [Get u, Get u, Get u]
       \<and> tracking (snd (download_file E u p MAX_RETRIES w)) = tracking w"
  using download_loop_fails [of E u p 2 w, OF assms] tracking_download_loop [of E u p 3 w]
  by (simp add: download_file_def MAX_RETRIES_def numeral_3_eq_3)

text \<open>
  Claim C3. When every request for the URL meets a transport error (the request fails,
  or the body breaks off after some chunks), \<open>download_file\<close> with the default
  \<open>MAX_RETRIES\<close> makes exactly three requests, all for that URL, returns failure and
  leaves no file at the destination, whatever was there before. In the loop of
  \<open>main\<close>, for an entry that is not in the ledger and has no file at its derived path,
  the tracker and the tracking file stay as they were, the destination is absent
  afterwards, three requests were made, and only the counter of failed entries has
  grown, by one.
\<close>

theorem retry_exhaustion:
  assumes "\<And>n. transport_error (respond E u n)"
  shows "fst (download_file E u p MAX_RETRIES w) = False
       \<and> filter is_get (trace (snd (download_file E u p MAX_RETRIES w))) =
           filter is_get (trace w) @ [Get u, Get u, Get u]
       \<and> files (snd (download_file E u p MAX_RETRIES w)) p = None
       \<and> (\<not> is_downloaded t u \<and> derived_path ttl \<notin> dom (files w) \<longrightarrow>
            fst (process_entry E len idx (ttl, u) (t, c, w)) = t
          \<and> tracking (snd (snd (process_entry E len idx (ttl, u) (t, c, w)))) = tracking w
          \<and> files (snd (snd (process_entry E len idx (ttl, u) (t, c, w)))) (derived_path ttl) = None
          \<and> filter is_get (trace (snd (snd (process_entry E len idx (ttl, u) (t, c, w))))) =
              filter is_get (trace w) @ [Get u, Get u, Get u]
          \<and> fst (snd (process_entry E len idx (ttl, u) (t, c, w))) = c\<lparr>failed := failed c + 1\<rparr>)"
proof -
  let ?w1 = "log_event (Exists (derived_path ttl)) w"
  note d = download_file_fails [of E u "derived_path ttl" ?w1, OF assms]
  have "\<not> is_downloaded t u \<and> derived_path ttl \<notin> dom (files w) \<longrightarrow>
            fst (process_entry E len idx (ttl, u) (t, c, w)) = t
          \<and> tracking (snd (snd (process_entry E len idx (ttl, u) (t, c, w)))) = tracking w
          \<and> files (snd (snd (process_entry E len idx (ttl, u) (t, c, w)))) (derived_path ttl) = None
          \<and> filter is_get (trace (snd (snd (process_entry E len idx (ttl, u) (t, c, w))))) =
              filter is_get (trace w) @ [Get u, Get u, Get u]
          \<and> fst (snd (process_entry E len idx (ttl, u) (t, c, w))) = c\<lparr>failed := failed c + 1\<rparr>"
    using d
    by (simp add: process_entry_download after_download_fails [OF assms] Let_def
        log_event_simps is_get_simps)
  with download_file_fails [of E u p w, OF assms] show ?thesis by simp
qed

text \<open>
  Claim C6. The loop of \<open>main\<close> checks in this order. An entry whose URL has its key in
  the tracker is counted as skipped and nothing else changes: no event is added to the
  trace, so no file is looked at and the ledger is not written. Otherwise, when a file
  exists at the derived path, the process looks at that path, writes a ledger entry for
  the URL to the tracking file and counts the entry as skipped; it makes no request and
  leaves the files alone. Only when both checks fail does the process, after looking at
  the path, request the URL.
\<close>

theorem skip_policy_order:
  "(is_downloaded t u \<longrightarrow>
      process_entry E len idx (ttl, u) (t, c, w) = (t, c\<lparr>skipped := skipped c + 1\<rparr>, w))
   \<and> (\<not> is_downloaded t u \<and> derived_path ttl \<in> dom (files w) \<longrightarrow>
        data (fst (process_entry E len idx (ttl, u) (t, c, w))) =
          (data t)(get_url_hash u \<mapsto>
             \<lparr>entry_url = u, entry_filename = sanitize_filename ttl, entry_title = ttl,
              entry_downloaded_at = strftime E (Suc (length (trace w)))\<rparr>)
      \<and> tracking (snd (snd (process_entry E len idx (ttl, u) (t, c, w)))) =
          Stored (data (fst (process_entry E len idx (ttl, u) (t, c, w))))
      \<and> fst (snd (process_entry E len idx (ttl, u) (t, c, w))) = c\<lparr>skipped := skipped c + 1\<rparr>
      \<and> trace (snd (snd (process_entry E len idx (ttl, u) (t, c, w)))) =
          trace w @ [Exists (derived_path ttl), SaveTracking]
      \<and> files (snd (snd (process_entry E len idx (ttl, u) (t, c, w)))) = files w)
   \<and> (\<not> is_downloaded t u \<and> derived_path ttl \<notin> dom (files w) \<longrightarrow>
        (\<exists>evs. trace (snd (snd (process_entry E len idx (ttl, u) (t, c, w)))) =
                 trace w @ Exists (derived_path ttl) # Get u # evs))"
proof (intro conjI impI)
  assume "is_downloaded t u"
  then show "process_entry E len idx (ttl, u) (t, c, w) = (t, c\<lparr>skipped := skipped c + 1\<rparr>, w)"
    by (rule process_entry_tracked)
next
  assume a: "\<not> is_downloaded t u \<and> derived_path ttl \<in> dom (files w)"
  then have p: "process_entry E len idx (ttl, u) (t, c, w) =
           (fst (mark_downloaded E u (sanitize_filename ttl) ttl
                  (t, log_event (Exists (derived_path ttl)) w)),
            c\<lparr>skipped := skipped c + 1\<rparr>,
            snd (mark_downloaded E u (sanitize_filename ttl) ttl
                  (t, log_event (Exists (derived_path ttl)) w)))"
    by (simp add: process_entry_adopt)
  show "data (fst (process_entry E len idx (ttl, u) (t, c, w))) =
          (data t)(get_url_hash u \<mapsto>
             \<lparr>entry_url = u, entry_filename = sanitize_filename ttl, entry_title = ttl,
              entry_downloaded_at = strftime E (Suc (length (trace w)))\<rparr>)"
    by (simp add: p data_mark_downloaded log_event_simps)
  show "tracking (snd (snd (process_entry E len idx (ttl, u) (t, c, w)))) =
          Stored (data (fst (process_entry E len idx (ttl, u) (t, c, w))))"
    by (simp add: p tracking_mark_downloaded)
  show "fst (snd (process_entry E len idx (ttl, u) (t, c, w))) = c\<lparr>skipped := skipped c + 1\<rparr>"
    by (simp add: p)
  show "trace (snd (snd (process_entry E len idx (ttl, u) (t, c, w)))) =
          trace w @ [Exists (derived_path ttl), SaveTracking]"
    by (simp add: p trace_mark_downloaded log_event_simps)
  show "files (snd (snd (process_entry E len idx (ttl, u) (t, c, w)))) = files w"
    by (simp add: p files_mark_downloaded log_event_simps)
next
  assume a: "\<not> is_downloaded t u \<and> derived_path ttl \<notin> dom (files w)"
  let ?w1 = "log_event (Exists (derived_path ttl)) w"
  from download_loop_first_request [of E u "derived_path ttl" 2 ?w1]
  obtain evs where e: "trace (snd (download_file E u (derived_path ttl) MAX_RETRIES ?w1)) =
      trace w @ Exists (derived_path ttl) # Get u # evs"
    by (auto simp: download_file_def MAX_RETRIES_def numeral_3_eq_3 log_event_simps)
  have "\<exists>evs'. trace (snd (snd (after_download E (ttl, u) (t, c, w)))) =
      trace w @ Exists (derived_path ttl) # Get u # evs'"
    using e by (simp add: after_download_def Let_def trace_mark_downloaded)
  then show "\<exists>evs. trace (snd (snd (process_entry E len idx (ttl, u) (t, c, w)))) =
                 trace w @ Exists (derived_path ttl) # Get u # evs"
    using a by (auto simp: process_entry_download Let_def log_event_simps)
qed

theorem retry_exhaustion_witness:
  "transport_error (respond dead_remote alpha_url 0)
   \<and> fst (download_file dead_remote alpha_url ''downloaded_pdfs/Case_Alpha.pdf'' MAX_RETRIES
           empty_world) = False
   \<and> files (snd (download_file dead_remote alpha_url ''downloaded_pdfs/Case_Alpha.pdf''
                   MAX_RETRIES empty_world)) ''downloaded_pdfs/Case_Alpha.pdf'' = None
   \<and> \<not> is_downloaded empty_tracker alpha_url
   \<and> derived_path ''Case Alpha'' \<notin> dom (files empty_world)
   \<and> fst (snd (process_entry dead_remote 1 1 (''Case Alpha'', alpha_url)
                  (empty_tracker, zero_counts, empty_world))) =
       \<lparr>downloaded = 0, skipped = 0, failed = 1\<rparr>
   \<and> filter is_get (trace (snd (snd (process_entry dead_remote 1 1 (''Case Alpha'', alpha_url)
                  (empty_tracker, zero_counts, empty_world))))) =
       [Get alpha_url, Get alpha_url, Get alpha_url]"
proof -
  have h: "\<And>n. transport_error (respond dead_remote alpha_url n)"
    by (simp add: dead_remote_def transport_error_def)
  have n: "\<not> is_downloaded empty_tracker alpha_url"
    "derived_path ''Case Alpha'' \<notin> dom (files empty_world)"
    by (simp_all add: is_downloaded_def empty_tracker_def empty_world_def)
  show ?thesis
    using retry_exhaustion [of dead_remote alpha_url "''downloaded_pdfs/Case_Alpha.pdf''"
        empty_world empty_tracker "''Case Alpha''" 1 1 zero_counts, OF h] h [of 0] n
    by (simp add: zero_counts_def empty_world_def)
qed

theorem skip_policy_order_witness:
  "is_downloaded alpha_tracked alpha_url
   \<and> process_entry dead_remote 1 1 (''Case Alpha'', alpha_url)
        (alpha_tracked, zero_counts, alpha_on_disk) =
       (alpha_tracked, \<lparr>downloaded = 0, skipped = 1, failed = 0\<rparr>, alpha_on_disk)
   \<and> \<not> is_downloaded empty_tracker alpha_url
   \<and> derived_path ''Case Alpha'' \<in> dom (files alpha_on_disk)
   \<and> trace (snd (snd (process_entry dead_remote 1 1 (''Case Alpha'', alpha_url)
        (empty_tracker, zero_counts, alpha_on_disk)))) =
       [Exists (derived_path ''Case Alpha''), SaveTracking]
   \<and> is_downloaded (fst (process_entry dead_remote 1 1 (''Case Alpha'', alpha_url)
        (empty_tracker, zero_counts, alpha_on_disk))) alpha_url
   \<and> derived_path ''Case Alpha'' \<notin> dom (files empty_world)
   \<and> (\<exists>evs. trace (snd (snd (process_entry dead_remote 1 1 (''Case Alpha'', alpha_url)
        (empty_tracker, zero_counts, empty_world)))) =
       Exists (derived_path ''Case Alpha'') # Get alpha_url # evs)"
proof -
  have a: "is_downloaded alpha_tracked alpha_url"
    by (simp add: is_downloaded_def alpha_tracked_def)
  have b: "\<not> is_downloaded empty_tracker alpha_url"
    by (simp add: is_downloaded_def empty_tracker_def)
  have c: "derived_path ''Case Alpha'' \<in> dom (files alpha_on_disk)"
    by (simp add: alpha_on_disk_def)
  have d: "derived_path ''Case Alpha'' \<notin> dom (files empty_world)"
    by (simp add: empty_world_def)
  have e: "trace alpha_on_disk = []" "trace empty_world = []"
    by (simp_all add: alpha_on_disk_def empty_world_def)
  show ?thesis
    using skip_policy_order [of alpha_tracked alpha_url dead_remote 1 1 "''Case Alpha''"
        zero_counts alpha_on_disk]
      skip_policy_order [of empty_tracker alpha_url dead_remote 1 1 "''Case Alpha''"
        zero_counts alpha_on_disk]
      skip_policy_order [of empty_tracker alpha_url dead_remote 1 1 "''Case Alpha''"
        zero_counts empty_world]
      a b c d e
    by (simp add: zero_counts_def is_downloaded_def)
qed

section \<open>Properties of the batch\<close>

lemma after_download_cases:
  "(after_download E (ttl, u) (t, c, w) =
      (fst (mark_downloaded E u (sanitize_filename ttl) ttl
              (t, snd (download_file E u (derived_path ttl) MAX_RETRIES
                         (log_event (Exists (derived_path ttl)) w)))),
       c\<lparr>downloaded := downloaded c + 1\<rparr>,
       snd (mark_downloaded E u (sanitize_filename ttl) ttl
              (t, snd (download_file E u (derived_path ttl) MAX_RETRIES
                         (log_event (Exists (derived_path ttl)) w)))))
    \<and> fst (download_file E u (derived_path ttl) MAX_RETRIES
              (log_event (Exists (derived_path ttl)) w)))
   \<or> (after_download E (ttl, u) (t, c, w) =
        (t, c\<lparr>failed := failed c + 1\<rparr>,
         snd (download_file E u (derived_path ttl) MAX_RETRIES
                (log_event (Exists (derived_path ttl)) w)))
      \<and> \<not> fst (download_file E u (derived_path ttl) MAX_RETRIES
                (log_event (Exists (derived_path ttl)) w)))"
  by (simp add: after_download_def Let_def)

text \<open>What one pass through the body of the loop keeps and establishes.\<close>

lemma after_download_props:
  fixes E ttl u t c w
  defines "s' \<equiv> after_download E (ttl, u) (t, c, w)"
  shows "(is_downloaded t v \<longrightarrow> is_downloaded (fst s') v)
       \<and> (synced t w \<longrightarrow> synced (fst s') (snd (snd s')))
       \<and> failed c \<le> failed (fst (snd s'))
       \<and> (failed (fst (snd s')) = failed c \<longrightarrow> is_downloaded (fst s') u)"
  using after_download_cases [of E ttl u t c w]
  unfolding s'_def
  by (auto simp: is_downloaded_mark synced_def load_tracking_data_def tracking_mark_downloaded
      download_file_def tracking_download_loop log_event_simps)

lemma process_entry_props:
  fixes E len idx ttl u t c w
  defines "s' \<equiv> process_entry E len idx (ttl, u) (t, c, w)"
  shows "(is_downloaded t v \<longrightarrow> is_downloaded (fst s') v)
       \<and> (synced t w \<longrightarrow> synced (fst s') (snd (snd s')))
       \<and> failed c \<le> failed (fst (snd s'))
       \<and> (failed (fst (snd s')) = failed c \<longrightarrow> is_downloaded (fst s') u)"
proof (cases "is_downloaded t u")
  case True
  then show ?thesis
    unfolding s'_def by (simp add: process_entry_tracked)
next
  case False
  show ?thesis
  proof (cases "derived_path ttl \<in> dom (files w)")
    case True
    with False show ?thesis
      unfolding s'_def
      by (simp add: process_entry_adopt is_downloaded_mark synced_def load_tracking_data_def
          tracking_mark_downloaded)
  next
    case nofile: False
    show ?thesis
      using after_download_props [where t=t and v=v and E=E and ttl=ttl and u=u and c=c and w=w] False nofile
      unfolding s'_def
      by (simp add: process_entry_download Let_def synced_def load_tracking_data_def
          log_event_simps)
  qed
qed

lemma main_loop_props:
  "(is_downloaded (fst s) v \<longrightarrow> is_downloaded (fst (main_loop E len idx entries s)) v)
   \<and> (synced (fst s) (snd (snd s)) \<longrightarrow>
        synced (fst (main_loop E len idx entries s)) (snd (snd (main_loop E len idx entries s))))
   \<and> failed (fst (snd s)) \<le> failed (fst (snd (main_loop E len idx entries s)))"
proof (induction entries arbitrary: idx s)
  case Nil
  then show ?case by simp
next
  case (Cons entry entries)
  obtain ttl u where e: "entry = (ttl, u)" by (cases entry)
  obtain t c w where s: "s = (t, c, w)" by (cases s)
  let ?s1 = "process_entry E len idx (ttl, u) (t, c, w)"
  from process_entry_props [where t=t and v=v and E=E and len=len and idx=idx and ttl=ttl and u=u and w=w and c=c] Cons.IH [where idx="idx + 1" and s="?s1"]
  show ?case
    unfolding e s by (simp add: le_trans)
qed

lemma main_loop_no_failure:
  "failed (fst (snd (main_loop E len idx entries s))) = failed (fst (snd s)) \<Longrightarrow>
   \<forall>e\<in>set entries. is_downloaded (fst (main_loop E len idx entries s)) (snd e)"
proof (induction entries arbitrary: idx s)
  case Nil
  then show ?case by simp
next
  case (Cons entry entries)
  obtain ttl u where e: "entry = (ttl, u)" by (cases entry)
  obtain t c w where s: "s = (t, c, w)" by (cases s)
  let ?s1 = "process_entry E len idx (ttl, u) (t, c, w)"
  let ?s2 = "main_loop E len (idx + 1) entries ?s1"
  have m: "main_loop E len idx (entry # entries) s = ?s2"
    by (simp add: e s)
  have le1: "failed c \<le> failed (fst (snd ?s1))"
    using process_entry_props [where t=t and v=u and E=E and len=len and idx=idx and ttl=ttl and u=u and w=w and c=c] by simp
  have le2: "failed (fst (snd ?s1)) \<le> failed (fst (snd ?s2))"
    using main_loop_props [where s="?s1" and v=u and E=E and len=len and idx="idx + 1" and entries=entries] by simp
  from Cons.prems have eq: "failed (fst (snd ?s2)) = failed c"
    by (simp add: e s)
  with le1 le2 have eq1: "failed (fst (snd ?s1)) = failed c"
    and eq2: "failed (fst (snd ?s2)) = failed (fst (snd ?s1))"
    by simp_all
  from eq1 have "is_downloaded (fst ?s1) u"
    using process_entry_props [where t=t and v=u and E=E and len=len and idx=idx and ttl=ttl and u=u and w=w and c=c] by simp
  then have head: "is_downloaded (fst ?s2) u"
    using main_loop_props [where s="?s1" and v=u and E=E and len=len and idx="idx + 1" and entries=entries] by simp
  from Cons.IH [OF eq2] have "\<forall>e\<in>set entries. is_downloaded (fst ?s2) (snd e)" .
  with head show ?case
    unfolding m by (simp add: e)
qed

lemma main_loop_all_tracked:
  "\<forall>e\<in>set entries. is_downloaded t (snd e) \<Longrightarrow>
   main_loop E len idx entries (t, c, w) =
     (t, c\<lparr>skipped := skipped c + length entries\<rparr>, w)"
proof (induction entries arbitrary: idx c)
  case Nil
  then show ?case by simp
next
  case (Cons entry entries)
  obtain ttl u where e: "entry = (ttl, u)" by (cases entry)
  from Cons.prems have "is_downloaded t u" and rest: "\<forall>e\<in>set entries. is_downloaded t (snd e)"
    by (simp_all add: e)
  then show ?case
    using Cons.IH [OF rest] by (simp add: e process_entry_tracked)
qed

lemma synced_fresh: "synced (DownloadTracker w) w"
  by (simp add: synced_def DownloadTracker_def)

lemma synced_reload: "synced t w \<Longrightarrow> DownloadTracker w = t"
  by (simp add: synced_def DownloadTracker_def)

lemma second_run_all_skipped:
  assumes "failed (fst (run_batch E entries w)) = 0"
  shows "run_batch E' entries (snd (run_batch E entries w)) =
           (\<lparr>downloaded = 0, skipped = length entries, failed = 0\<rparr>,
            snd (run_batch E entries w))"
proof -
  define s0 where "s0 = (DownloadTracker w, \<lparr>downloaded = 0, skipped = 0, failed = 0\<rparr>, w)"
  define s1 where "s1 = main_loop E (length entries) 1 entries s0"
  have r1: "run_batch E entries w = (fst (snd s1), snd (snd s1))"
    by (simp add: run_batch_def Let_def s1_def s0_def)
  with assms have "failed (fst (snd s1)) = failed (fst (snd s0))"
    by (simp add: s0_def)
  then have tracked: "\<forall>e\<in>set entries. is_downloaded (fst s1) (snd e)"
    unfolding s1_def by (rule main_loop_no_failure)
  have "synced (fst s0) (snd (snd s0))"
    by (simp add: s0_def synced_fresh)
  then have "synced (fst s1) (snd (snd s1))"
    unfolding s1_def
    using main_loop_props [where s=s0 and E=E and len="length entries" and idx=1
        and entries=entries]
    by simp
  then have reload: "DownloadTracker (snd (snd s1)) = fst s1"
    by (rule synced_reload)
  have "run_batch E' entries (snd (snd s1)) =
          (\<lparr>downloaded = 0, skipped = length entries, failed = 0\<rparr>, snd (snd s1))"
    unfolding run_batch_def Let_def reload
    using main_loop_all_tracked [OF tracked, where E=E' and len="length entries" and idx=1
        and c="\<lparr>downloaded = 0, skipped = 0, failed = 0\<rparr>" and w="snd (snd s1)"]
    by simp
  then show ?thesis
    by (simp add: r1)
qed

text \<open>With a steady remote side a download succeeds exactly when the first answer is complete.\<close>

lemma attempt_true:
  "fst (attempt_download E u p left w) = Some True \<Longrightarrow>
   \<not> transport_error (respond E u (request_count w))"
  by (auto simp: attempt_download_def Let_def transport_error_def on_request_exception_def
      split: response.splits if_splits)

lemma download_loop_true:
  "fst (download_loop E u p k w) \<Longrightarrow> \<exists>n. \<not> transport_error (respond E u n)"
proof (induction k arbitrary: w)
  case 0
  then show ?case by simp
next
  case (Suc k)
  obtain r w' where a: "attempt_download E u p k w = (r, w')"
    by (cases "attempt_download E u p k w")
  show ?case
  proof (cases r)
    case None
    with a Suc.prems have "fst (download_loop E u p k w')" by simp
    then show ?thesis by (rule Suc.IH)
  next
    case (Some b)
    with a Suc.prems have "fst (attempt_download E u p k w) = Some True" by simp
    then have "\<not> transport_error (respond E u (request_count w))" by (rule attempt_true)
    then show ?thesis ..
  qed
qed

lemma steady_failure:
  assumes "steady E" and "\<not> succeeds E u"
  shows "\<not> fst (download_file E u p retries w)"
proof
  assume "fst (download_file E u p retries w)"
  then obtain n where "\<not> transport_error (respond E u n)"
    unfolding download_file_def using download_loop_true by blast
  moreover from assms(1) have "respond E u n = respond E u 0"
    by (simp add: steady_def)
  ultimately show False
    using assms(2) by (simp add: succeeds_def)
qed

lemma after_download_steady:
  assumes "steady E" and "\<not> succeeds E u"
  shows "downloaded (fst (snd (after_download E (ttl, u) (t, c, w)))) = downloaded c"
  using after_download_cases [of E ttl u t c w] steady_failure [OF assms]
  by auto

lemma after_download_tracked_or_failing:
  "is_downloaded (fst (after_download E (ttl, u) (t, c, w))) u
   \<or> \<not> fst (download_file E u (derived_path ttl) MAX_RETRIES
              (log_event (Exists (derived_path ttl)) w))"
  using after_download_cases [of E ttl u t c w]
  by (auto simp: is_downloaded_mark)

lemma steady_success:
  assumes "steady E" and "succeeds E u"
  shows "fst (download_loop E u p (Suc k) w)"
proof -
  from assms(1) have "respond E u (request_count w) = respond E u 0"
    by (simp add: steady_def)
  with assms(2) obtain chunks where "respond E u (request_count w) = Complete chunks"
    by (auto simp: succeeds_def transport_error_def split: response.splits)
  then show ?thesis
    by (simp add: attempt_download_def Let_def)
qed

lemma process_entry_steady:
  fixes E len idx ttl u t c w
  defines "s' \<equiv> process_entry E len idx (ttl, u) (t, c, w)"
  assumes "steady E"
  shows "(is_downloaded (fst s') u \<or> \<not> succeeds E u)
       \<and> (is_downloaded t u \<or> \<not> succeeds E u \<longrightarrow> downloaded (fst (snd s')) = downloaded c)"
proof (cases "is_downloaded t u")
  case True
  then show ?thesis
    unfolding s'_def by (simp add: process_entry_tracked)
next
  case False
  show ?thesis
  proof (cases "derived_path ttl \<in> dom (files w)")
    case True
    with False show ?thesis
      unfolding s'_def by (simp add: process_entry_adopt is_downloaded_mark)
  next
    case nofile: False
    have p: "fst s' = fst (after_download E (ttl, u) (t, c, w))"
      "fst (snd s') = fst (snd (after_download E (ttl, u) (t, c, w)))"
      unfolding s'_def using False nofile by (simp_all add: process_entry_download Let_def)
    have one: "is_downloaded (fst s') u \<or> \<not> succeeds E u"
    proof (cases "succeeds E u")
      case True
      then have "fst (download_file E u (derived_path ttl) MAX_RETRIES
              (log_event (Exists (derived_path ttl)) w))"
        using steady_success [OF assms(2), of u "derived_path ttl" 2]
        by (simp add: download_file_def MAX_RETRIES_def numeral_3_eq_3)
      then show ?thesis
        using after_download_tracked_or_failing [of E ttl u t c w] by (simp add: p)
    next
      case False
      then show ?thesis by simp
    qed
    have two: "\<not> succeeds E u \<longrightarrow> downloaded (fst (snd s')) = downloaded c"
      using after_download_steady [OF assms(2)] by (simp add: p)
    from one two False show ?thesis by simp
  qed
qed

lemma main_loop_steady_downloads:
  assumes "steady E"
  shows "\<forall>e\<in>set entries. is_downloaded (fst s) (snd e) \<or> \<not> succeeds E (snd e) \<Longrightarrow>
         downloaded (fst (snd (main_loop E len idx entries s))) = downloaded (fst (snd s))"
proof (induction entries arbitrary: idx s)
  case Nil
  then show ?case by simp
next
  case (Cons entry entries)
  obtain ttl u where e: "entry = (ttl, u)" by (cases entry)
  obtain t c w where s: "s = (t, c, w)" by (cases s)
  let ?s1 = "process_entry E len idx (ttl, u) (t, c, w)"
  from Cons.prems have hd: "is_downloaded t u \<or> \<not> succeeds E u"
    and tl: "\<forall>e\<in>set entries. is_downloaded t (snd e) \<or> \<not> succeeds E (snd e)"
    by (simp_all add: e s)
  have d1: "downloaded (fst (snd ?s1)) = downloaded c"
    using process_entry_steady [where E=E and len=len and idx=idx and ttl=ttl and u=u
        and t=t and c=c and w=w, OF assms] hd by simp
  have "\<forall>e\<in>set entries. is_downloaded (fst ?s1) (snd e) \<or> \<not> succeeds E (snd e)"
  proof
    fix e assume "e \<in> set entries"
    with tl have "is_downloaded t (snd e) \<or> \<not> succeeds E (snd e)" by simp
    then show "is_downloaded (fst ?s1) (snd e) \<or> \<not> succeeds E (snd e)"
      using process_entry_props [where t=t and v="snd e" and E=E and len=len and idx=idx
          and ttl=ttl and u=u and w=w and c=c] by auto
  qed
  from Cons.IH [OF this, where idx="idx + 1"] d1 show ?case
    by (simp add: e s)
qed

lemma main_loop_steady_tracked:
  assumes "steady E"
  shows "\<forall>e\<in>set entries.
           is_downloaded (fst (main_loop E len idx entries s)) (snd e) \<or> \<not> succeeds E (snd e)"
proof (induction entries arbitrary: idx s)
  case Nil
  then show ?case by simp
next
  case (Cons entry entries)
  obtain ttl u where e: "entry = (ttl, u)" by (cases entry)
  obtain t c w where s: "s = (t, c, w)" by (cases s)
  let ?s1 = "process_entry E len idx (ttl, u) (t, c, w)"
  let ?s2 = "main_loop E len (idx + 1) entries ?s1"
  have m: "main_loop E len idx (entry # entries) s = ?s2"
    by (simp add: e s)
  have "is_downloaded (fst ?s1) u \<or> \<not> succeeds E u"
    using process_entry_steady [where E=E and len=len and idx=idx and ttl=ttl and u=u
        and t=t and c=c and w=w, OF assms] by simp
  then have hd: "is_downloaded (fst ?s2) u \<or> \<not> succeeds E u"
    using main_loop_props [where s="?s1" and v=u and E=E and len=len and idx="idx + 1"
        and entries=entries] by auto
  from Cons.IH [where idx="idx + 1" and s="?s1"] hd show ?case
    unfolding m by (simp add: e)
qed

lemma second_run_no_download:
  assumes "steady E"
  shows "downloaded (fst (run_batch E entries (snd (run_batch E entries w)))) = 0"
proof -
  define s0 where "s0 = (DownloadTracker w, \<lparr>downloaded = 0, skipped = 0, failed = 0\<rparr>, w)"
  define s1 where "s1 = main_loop E (length entries) 1 entries s0"
  have r1: "run_batch E entries w = (fst (snd s1), snd (snd s1))"
    by (simp add: run_batch_def Let_def s1_def s0_def)
  have tracked: "\<forall>e\<in>set entries. is_downloaded (fst s1) (snd e) \<or> \<not> succeeds E (snd e)"
    unfolding s1_def by (rule main_loop_steady_tracked [OF assms])
  have "synced (fst s0) (snd (snd s0))"
    by (simp add: s0_def synced_fresh)
  then have "synced (fst s1) (snd (snd s1))"
    unfolding s1_def
    using main_loop_props [where s=s0 and E=E and len="length entries" and idx=1
        and entries=entries]
    by simp
  then have reload: "DownloadTracker (snd (snd s1)) = fst s1"
    by (rule synced_reload)
  define s2 where "s2 = (fst s1, \<lparr>downloaded = 0, skipped = 0, failed = 0\<rparr>, snd (snd s1))"
  have "\<forall>e\<in>set entries. is_downloaded (fst s2) (snd e) \<or> \<not> succeeds E (snd e)"
    using tracked by (simp add: s2_def)
  then have "downloaded (fst (snd (main_loop E (length entries) 1 entries s2))) =
      downloaded (fst (snd s2))"
    by (rule main_loop_steady_downloads [OF assms])
  then have "downloaded (fst (run_batch E entries (snd (snd s1)))) = 0"
    unfolding run_batch_def Let_def reload by (simp add: s2_def)
  then show ?thesis
    by (simp add: r1)
qed

lemma process_entry_processed:
  "processed (fst (snd (process_entry E len idx (ttl, u) (t, c, w)))) = Suc (processed c)"
proof (cases "is_downloaded t u")
  case True
  then show ?thesis
    by (simp add: process_entry_tracked processed_def)
next
  case False
  show ?thesis
  proof (cases "derived_path ttl \<in> dom (files w)")
    case True
    with False show ?thesis
      by (simp add: process_entry_adopt processed_def)
  next
    case nofile: False
    have "processed (fst (snd (after_download E (ttl, u) (t, c, w)))) = Suc (processed c)"
      using after_download_cases [of E ttl u t c w] by (auto simp: processed_def)
    with False nofile show ?thesis
      by (simp add: process_entry_download Let_def)
  qed
qed

lemma main_loop_processed:
  "processed (fst (snd (main_loop E len idx entries s))) =
     processed (fst (snd s)) + length entries"
proof (induction entries arbitrary: idx s)
  case Nil
  then show ?case by simp
next
  case (Cons entry entries)
  obtain ttl u where e: "entry = (ttl, u)" by (cases entry)
  obtain t c w where s: "s = (t, c, w)" by (cases s)
  show ?case
    using Cons.IH [where idx="idx + 1" and s="process_entry E len idx (ttl, u) (t, c, w)"]
      process_entry_processed [of E len idx ttl u t c w]
    by (simp add: e s)
qed

lemma run_batch_processed: "processed (fst (run_batch E entries w)) = length entries"
  using main_loop_processed [of E "length entries" 1 entries
      "(DownloadTracker w, \<lparr>downloaded = 0, skipped = 0, failed = 0\<rparr>, w)"]
  by (simp add: run_batch_def Let_def processed_def)

lemma second_run_skipped_or_failed:
  assumes "steady E"
  shows "skipped (fst (run_batch E entries (snd (run_batch E entries w))))
         + failed (fst (run_batch E entries (snd (run_batch E entries w)))) = length entries"
  using run_batch_processed [of E entries "snd (run_batch E entries w)"]
    second_run_no_download [OF assms, of entries w]
  by (simp add: processed_def)

text \<open>
  Claim C7, as amended. Run the batch loop twice on the same entries, the second run
  on the files and the ledger the first run left. If the first run reported no failed
  entry, the second run downloads nothing and counts every entry as skipped; it does so
  at the first check, so that it makes no request, looks at no file and leaves the
  world as it found it, whatever the remote side would answer. If the remote side
  answers each URL the same way at every request, the second run downloads nothing new
  whatever the first run reported, and counts every entry as skipped or as failed.
\<close>

theorem second_run_idempotent:
  "(failed (fst (run_batch E entries w)) = 0 \<longrightarrow>
      run_batch E' entries (snd (run_batch E entries w)) =
        (\<lparr>downloaded = 0, skipped = length entries, failed = 0\<rparr>, snd (run_batch E entries w)))
   \<and> (steady E \<longrightarrow>
        downloaded (fst (run_batch E entries (snd (run_batch E entries w)))) = 0
      \<and> skipped (fst (run_batch E entries (snd (run_batch E entries w))))
          + failed (fst (run_batch E entries (snd (run_batch E entries w)))) = length entries)"
  using second_run_all_skipped [of E entries w E'] second_run_no_download [of E entries w]
    second_run_skipped_or_failed [of E entries w]
  by blast

lemmas batch_eval =
  run_batch_def Let_def DownloadTracker_def load_tracking_data_def process_entry_def
  is_downloaded_def download_file_def MAX_RETRIES_def numeral_3_eq_3 attempt_download_def
  on_request_exception_def write_chunks_def log_event_def request_count_def is_get_def
  mark_downloaded_def save_tracking_data_def

lemma echo_first_run:
  "fst (run_batch echo_remote [(''Case Alpha'', alpha_url)] empty_world) =
     \<lparr>downloaded = 1, skipped = 0, failed = 0\<rparr>"
  by (simp add: batch_eval echo_remote_def empty_world_def)

theorem second_run_idempotent_witness:
  "failed (fst (run_batch echo_remote [(''Case Alpha'', alpha_url)] empty_world)) = 0
   \<and> steady echo_remote
   \<and> fst (run_batch echo_remote [(''Case Alpha'', alpha_url)]
            (snd (run_batch echo_remote [(''Case Alpha'', alpha_url)] empty_world))) =
       \<lparr>downloaded = 0, skipped = 1, failed = 0\<rparr>"
proof -
  have f: "failed (fst (run_batch echo_remote [(''Case Alpha'', alpha_url)] empty_world)) = 0"
    by (simp add: echo_first_run)
  have s: "steady echo_remote"
    by (simp add: steady_def echo_remote_def)
  show ?thesis
    using second_run_idempotent [of echo_remote "[(''Case Alpha'', alpha_url)]" empty_world
        echo_remote] f s
    by simp
qed

text \<open>
  The claim as stated fails when the remote side, unchanged between the runs, answers
  every request with a transport error: the entry fails in the first run, and the second
  run, on the files and the ledger the first run left, does not skip it but fails again.
\<close>

theorem second_run_skips_all_counterexample:
  "steady dead_remote
   \<and> fst (run_batch dead_remote [(''Case Alpha'', alpha_url)]
            (snd (run_batch dead_remote [(''Case Alpha'', alpha_url)] empty_world))) =
       \<lparr>downloaded = 0, skipped = 0, failed = 1\<rparr>"
  by (simp add: steady_def batch_eval dead_remote_def empty_world_def)

section \<open>Properties of catalog discovery\<close>

lemma api_loop_end:
  "ends_pagination W (get_api W n pid base_nid offset) \<Longrightarrow>
   api_loop W pid base_nid n offset all_cases requested = Some (all_cases, requested @ [offset])"
  by (subst api_loop.simps) (auto simp: ends_pagination_def split: http_result.splits)

lemma api_loop_batch:
  "\<not> ends_pagination W (get_api W n pid base_nid offset) \<Longrightarrow>
   api_loop W pid base_nid n offset all_cases requested =
     api_loop W pid base_nid (n + 1) (offset + 10)
       (all_cases @ batch_records W (get_api W n pid base_nid offset)) (requested @ [offset])"
  by (subst api_loop.simps)
    (auto simp: ends_pagination_def batch_records_def split: http_result.splits)

lemma api_loop_run:
  assumes "\<forall>i<k. \<not> ends_pagination W (get_api W (n + i) pid base_nid (offset + 10 * int i))"
    and "ends_pagination W (get_api W (n + k) pid base_nid (offset + 10 * int k))"
  shows "api_loop W pid base_nid n offset all_cases requested =
           Some (all_cases @
                   concat (map (\<lambda>i. batch_records W
                                  (get_api W (n + i) pid base_nid (offset + 10 * int i))) [0..<k]),
                 requested @ map (\<lambda>i. offset + 10 * int i) [0..<Suc k])"
  using assms
proof (induction k arbitrary: n offset all_cases requested)
  case 0
  then show ?case by (simp add: api_loop_end)
next
  case (Suc k)
  from Suc.prems(1) have first: "\<not> ends_pagination W (get_api W n pid base_nid offset)"
    by (auto dest: spec [of _ 0])
  have rest: "\<forall>i<k. \<not> ends_pagination W
      (get_api W (n + 1 + i) pid base_nid (offset + 10 + 10 * int i))"
  proof (intro allI impI)
    fix i assume "i < k"
    then have "Suc i < Suc k" by simp
    with Suc.prems(1) have "\<not> ends_pagination W
      (get_api W (n + Suc i) pid base_nid (offset + 10 * int (Suc i)))" by blast
    then show "\<not> ends_pagination W
      (get_api W (n + 1 + i) pid base_nid (offset + 10 + 10 * int i))"
      by (simp add: algebra_simps)
  qed
  have last: "ends_pagination W (get_api W (n + 1 + k) pid base_nid (offset + 10 + 10 * int k))"
    using Suc.prems(2) by (simp add: algebra_simps)
  have shift_b: "map (\<lambda>i. batch_records W
          (get_api W (n + i) pid base_nid (offset + 10 * int i))) [0..<Suc k] =
      batch_records W (get_api W n pid base_nid offset) #
      map (\<lambda>i. batch_records W
          (get_api W (n + 1 + i) pid base_nid (offset + 10 + 10 * int i))) [0..<k]"
    by (simp add: upt_conv_Cons map_Suc_upt [symmetric] algebra_simps del: upt_Suc)
  have shift_o: "map (\<lambda>i. offset + 10 * int i) [0..<Suc (Suc k)] =
      offset # map (\<lambda>i. offset + 10 + 10 * int i) [0..<Suc k]"
    by (simp add: upt_conv_Cons map_Suc_upt [symmetric] algebra_simps del: upt_Suc)
  show ?case
    unfolding api_loop_batch [OF first] Suc.IH [OF rest last] shift_b shift_o
    by simp
qed

lemma api_loop_from_start:
  assumes "\<forall>i<k. \<not> ends_pagination W (api_response W pid base_nid offset i)"
    and "ends_pagination W (api_response W pid base_nid offset k)"
  shows "api_loop W pid base_nid 0 offset all_cases [] =
           Some (all_cases @
                   concat (map (\<lambda>i. batch_records W (api_response W pid base_nid offset i)) [0..<k]),
                 map (\<lambda>i. offset + 10 * int i) [0..<Suc k])"
  using api_loop_run [of k W 0 pid base_nid offset all_cases "[]"] assms
  by (simp add: api_response_def)

text \<open>
  Claim C8. Let the listing page be fetched and hold a \<open>Load More\<close> link whose URL gives
  a non-empty \<open>pid\<close> and \<open>base_nid\<close> and an integer \<open>offset\<close>, so that the pagination
  loop is entered. If the first \<open>k\<close> responses of the API are batches and the next one
  ends the pagination (an empty or whitespace-only body, a fragment without a matching
  anchor, or a failed request), then \<open>fetch_all_cases\<close> returns, after exactly
  \<open>k + 1\<close> API calls with the offsets \<open>offset\<close>, \<open>offset + 10\<close>, ...,
  \<open>offset + 10 k\<close>: the titled records of the listing page followed by those of the
  \<open>k\<close> batches, in the order of the batches.
\<close>

theorem pagination_terminates:
  assumes "get_page W page_url = Response page"
    and "load_more (soup W page) = Some button"
    and "href button = Some load_more_url" and "load_more_url \<noteq> []"
    and "first_param (query W load_more_url) ''pid'' None = Inr (Some pid)" and "pid \<noteq> []"
    and "first_param (query W load_more_url) ''base_nid'' None = Inr (Some base_nid)"
    and "base_nid \<noteq> []"
    and "first_param (query W load_more_url) ''offset'' (Some ''10'') = Inr offset_text"
    and "py_int W offset_text = Inr offset"
    and "\<forall>i<k. \<not> ends_pagination W (api_response W pid base_nid offset i)"
    and "ends_pagination W (api_response W pid base_nid offset k)"
  shows "fetch_all_cases W page_url =
           Some (Inr (titled_records (initial_case_elements (soup W page)) @
                        concat (map (\<lambda>i. batch_records W (api_response W pid base_nid offset i))
                                  [0..<k]),
                      map (\<lambda>i. offset + 10 * int i) [0..<Suc k]))"
proof -
  have "api_loop W pid base_nid 0 offset (titled_records (initial_case_elements (soup W page))) [] =
      Some (titled_records (initial_case_elements (soup W page)) @
              concat (map (\<lambda>i. batch_records W (api_response W pid base_nid offset i)) [0..<k]),
            map (\<lambda>i. offset + 10 * int i) [0..<Suc k])"
    using assms(11,12) by (rule api_loop_from_start)
  then show ?thesis
    using assms(1-10) by (simp add: fetch_all_cases_def Let_def)
qed

lemma parse_case_link: "parse_case_element (case_link path heading) = case_record path heading"
  by (simp add: parse_case_element_def case_link_def case_record_def)

lemma case_link_ok:
  "fragment_href_ok (case_link path heading)"
  "has_title (case_record path heading) \<longleftrightarrow> heading \<noteq> []"
  by (simp_all add: fragment_href_ok_def case_link_def library_prefix_def has_title_def
      case_record_def)

lemma strip_blanks: "strip ''  '' = []" "strip ''B'' = ''B''" "strip ''C'' = ''C''"
  by (simp_all add: strip_def is_space_def whitespace_chars_def)

lemma demo_api:
  "api_response demo_web ''66387'' ''19867'' 10 0 = Response ''B''"
  "api_response demo_web ''66387'' ''19867'' 10 (Suc 0) = Response ''C''"
  "api_response demo_web ''66387'' ''19867'' 10 2 = Response ''  ''"
  by (simp_all add: api_response_def demo_web_def)

lemma demo_soup:
  "soup demo_web ''P'' = listing_doc"
  "soup demo_web ''B'' = \<lparr>anchors = [case_link ''b'' ''Case B''], load_more = None\<rparr>"
  "soup demo_web ''C'' =
     \<lparr>anchors = [case_link ''c'' ''Case C'', case_link ''d'' []], load_more = None\<rparr>"
  by (simp_all add: demo_web_def)

lemma demo_batches:
  "batch_records demo_web (Response ''B'') = [case_record ''b'' ''Case B'']"
  "batch_records demo_web (Response ''C'') = [case_record ''c'' ''Case C'']"
  "\<not> ends_pagination demo_web (Response ''B'')"
  "\<not> ends_pagination demo_web (Response ''C'')"
  "ends_pagination demo_web (Response ''  '')"
  by (simp_all add: batch_records_def ends_pagination_def demo_soup fragment_case_elements_def
      titled_records_def parse_case_link case_link_ok strip_blanks)

lemma demo_initial:
  "titled_records (initial_case_elements listing_doc) = [case_record ''a'' ''Case A'']"
  by (simp add: titled_records_def initial_case_elements_def listing_doc_def initial_href_ok_def
      library_prefix_def listing_path_def case_link_def parse_case_element_def case_record_def
      has_title_def)

theorem pagination_terminates_witness:
  "\<not> ends_pagination demo_web (api_response demo_web ''66387'' ''19867'' 10 0)
   \<and> \<not> ends_pagination demo_web (api_response demo_web ''66387'' ''19867'' 10 1)
   \<and> ends_pagination demo_web (api_response demo_web ''66387'' ''19867'' 10 2)
   \<and> fetch_all_cases demo_web listing_path =
       Some (Inr ([case_record ''a'' ''Case A'', case_record ''b'' ''Case B'',
                   case_record ''c'' ''Case C''],
                  [10, 20, 30]))"
proof -
  have page: "get_page demo_web listing_path = Response ''P''"
    by (simp add: demo_web_def)
  have button: "load_more (soup demo_web ''P'') =
      Some \<lparr>href = Some more_url, h3_text = None, p_texts = [], div_text = None\<rparr>"
    by (simp add: demo_soup listing_doc_def)
  have h: "href \<lparr>href = Some more_url, h3_text = None, p_texts = [], div_text = None\<rparr> =
      Some more_url"
    by simp
  have ne: "more_url \<noteq> []" "''66387'' \<noteq> []" "''19867'' \<noteq> []"
    by (simp_all add: more_url_def)
  have params:
    "first_param (query demo_web more_url) ''pid'' None = Inr (Some ''66387'')"
    "first_param (query demo_web more_url) ''base_nid'' None = Inr (Some ''19867'')"
    "first_param (query demo_web more_url) ''offset'' (Some ''10'') = Inr (Some ''10'')"
    "py_int demo_web (Some ''10'') = Inr 10"
    by (simp_all add: first_param_def py_int_def demo_web_def)
  have batches: "\<forall>i<2. \<not> ends_pagination demo_web (api_response demo_web ''66387'' ''19867'' 10 i)"
    by (simp add: less_Suc_eq numeral_2_eq_2 demo_api demo_batches)
  have last: "ends_pagination demo_web (api_response demo_web ''66387'' ''19867'' 10 2)"
    by (simp add: demo_api demo_batches)
  have upt: "[0..<2] = [0, Suc 0]" "[0..<3] = [0, Suc 0, 2]"
    by (simp_all add: upt_conv_Cons)
  show ?thesis
    using pagination_terminates [OF page button h ne(1) params(1) ne(2) params(2) ne(3)
        params(3,4) batches last]
    by (simp add: upt demo_api demo_batches demo_soup demo_initial del: upt_Suc)
qed

end
